theory Spec2Isabelle
  imports Main "HOL-Library.Word"
begin

section \<open>Mantlememo: the marketplace ledger of app/contracts/contract.sol\<close>

text \<open>
  The contract is embedded function by function. Solidity values keep their widths:
  an \<open>address\<close> is a 160-bit word and a \<open>uint256\<close> a 256-bit word; the compiler
  (pragma 0.8.20) checks every \<open>+\<close> and \<open>-\<close> and reverts with a panic instead of
  wrapping, which \<open>checked_add\<close> and \<open>checked_sub\<close> write out. A \<open>string\<close> is its
  list of bytes. A storage \<open>mapping\<close> is a total function: a key never written reads
  as the all-zero struct.

  \<open>keccak256(abi.encodePacked(addr, id))\<close> is a primitive of the platform and not part
  of the repository. Every operation takes it as the parameter \<open>H\<close>, and the key type
  is a type variable (the contract's \<open>bytes32\<close> is one instance). Nothing is assumed
  about \<open>H\<close> unless a theorem says so.

  The three value transfers of the contract are plain \<open>call{value: ..}("")\<close> with all
  gas forwarded and no reentrancy guard: the recipient's code runs during the transfer
  and may call back into the contract. The model runs those calls (see
  \<open>reaction\<close> and \<open>call_value\<close>).
\<close>

type_synonym address = "160 word"
type_synonym uint256 = "256 word"

subsection \<open>1. Constants\<close>

text \<open>
  Amounts are in wei (1 ether = 10^18 wei, 7 days = 604800 seconds).
  \<open>MIN_STRING_LENGTH\<close> is only ever compared with the byte length of a string
  and is a natural number here.
\<close>

definition MAX_PRICE_PER_QUERY :: uint256 where
  "MAX_PRICE_PER_QUERY = 1000000000000000000"

definition MIN_PRICE_PER_QUERY :: uint256 where
  "MIN_PRICE_PER_QUERY = 100000000000000"

definition MAX_STAKE_AMOUNT :: uint256 where
  "MAX_STAKE_AMOUNT = 100000000000000000000"

definition MIN_STAKE_AMOUNT :: uint256 where
  "MIN_STAKE_AMOUNT = 100000000000000"

definition MIN_STRING_LENGTH :: nat where
  "MIN_STRING_LENGTH = 1"

definition LOCK_PERIOD_SECONDS :: uint256 where
  "LOCK_PERIOD_SECONDS = 604800"

subsection \<open>2. Errors\<close>

text \<open>
  The eleven custom errors, the string error of a failed \<open>require\<close>, and the
  panic of checked arithmetic.
\<close>

datatype error =
    EmptyString
  | InvalidMetadataLength
  | CapsuleNotFound
  | InvalidPrice
  | PriceTooHigh
  | InsufficientPayment
  | TransferFailed
  | StakeTooHigh
  | InsufficientStake
  | StakeLocked
  | Unauthorized
  | Error string
  | Panic

subsection \<open>3. Data structures\<close>

text \<open>
  Field names are those of the structs; where two structs share a name
  (\<open>name\<close>, \<open>createdAt\<close>, \<open>exists\<close>, \<open>earnings\<close>) the struct is prefixed.
\<close>

record Agent =
  owner :: address
  agentId :: string
  agent_name :: string
  displayName :: string
  platform :: string
  agent_createdAt :: uint256
  reputation :: uint256
  agent_exists :: bool

record Capsule =
  creator :: address
  capsuleId :: string
  capsule_name :: string
  description :: string
  category :: string
  price :: uint256
  totalStake :: uint256
  createdAt :: uint256
  updatedAt :: uint256
  capsule_earnings :: uint256
  capsule_exists :: bool

record Staking =
  stakedAt :: uint256
  lockUntil :: uint256
  stake_exists :: bool

record Earnings =
  totalEarnings :: uint256
  queryCount :: uint256
  lastUpdated :: uint256

definition zero_Agent :: Agent where
  "zero_Agent = \<lparr>owner = 0, agentId = [], agent_name = [], displayName = [], platform = [],
     agent_createdAt = 0, reputation = 0, agent_exists = False\<rparr>"

definition zero_Capsule :: Capsule where
  "zero_Capsule = \<lparr>creator = 0, capsuleId = [], capsule_name = [], description = [],
     category = [], price = 0, totalStake = 0, createdAt = 0, updatedAt = 0,
     capsule_earnings = 0, capsule_exists = False\<rparr>"

definition zero_Staking :: Staking where
  "zero_Staking = \<lparr>stakedAt = 0, lockUntil = 0, stake_exists = False\<rparr>"

definition zero_Earnings :: Earnings where
  "zero_Earnings = \<lparr>totalEarnings = 0, queryCount = 0, lastUpdated = 0\<rparr>"

subsection \<open>4. History logs and events\<close>

datatype AgentRegisteredLog = AgentRegisteredLog address string uint256

datatype CapsuleCreatedLog = CapsuleCreatedLog address string uint256

datatype StakedOnCapsuleLog = StakedOnCapsuleLog address string uint256 uint256

datatype UnstakedFromCapsuleLog = UnstakedFromCapsuleLog address string uint256 uint256

datatype PriceUpdatedLog = PriceUpdatedLog string uint256 uint256

datatype EarningsWithdrawnLog = EarningsWithdrawnLog address uint256 uint256

datatype CapsuleQueriedLog = CapsuleQueriedLog address string uint256 uint256

datatype event =
    AgentRegistered address string
  | CapsuleCreated address string
  | StakedOnCapsule address string uint256
  | UnstakedFromCapsule address string uint256
  | PriceUpdated string uint256
  | EarningsWithdrawn address uint256
  | CapsuleQueried address string uint256

subsection \<open>5. Storage\<close>

text \<open>
  The contract's storage, and with it the three things of the platform an operation
  reads or writes: the events emitted so far, the contract's own balance
  (\<open>address(this).balance\<close>), and the value transfers the contract has made, in
  order, each with its recipient and amount.
\<close>

record 'k state =
  agentRegisteredHistory :: "AgentRegisteredLog list"
  capsuleCreatedHistory :: "CapsuleCreatedLog list"
  stakedOnCapsuleHistory :: "StakedOnCapsuleLog list"
  unstakedFromCapsuleHistory :: "UnstakedFromCapsuleLog list"
  priceUpdatedHistory :: "PriceUpdatedLog list"
  earningsWithdrawnHistory :: "EarningsWithdrawnLog list"
  capsuleQueriedHistory :: "CapsuleQueriedLog list"
  agents :: "'k \<Rightarrow> Agent"
  capsules :: "'k \<Rightarrow> Capsule"
  earnings :: "'k \<Rightarrow> Earnings"
  stakes :: "'k \<Rightarrow> address \<Rightarrow> Staking"
  ownerAgents :: "address \<Rightarrow> string list"
  ownerCapsules :: "address \<Rightarrow> string list"
  events :: "event list"
  balance :: nat
  payouts :: "(address \<times> uint256) list"

definition init :: "'k state" where
  "init = \<lparr>agentRegisteredHistory = [], capsuleCreatedHistory = [],
     stakedOnCapsuleHistory = [], unstakedFromCapsuleHistory = [],
     priceUpdatedHistory = [], earningsWithdrawnHistory = [], capsuleQueriedHistory = [],
     agents = (\<lambda>_. zero_Agent), capsules = (\<lambda>_. zero_Capsule),
     earnings = (\<lambda>_. zero_Earnings), stakes = (\<lambda>_ _. zero_Staking),
     ownerAgents = (\<lambda>_. []), ownerCapsules = (\<lambda>_. []),
     events = [], balance = 0, payouts = []\<rparr>"

text \<open>
  The seven state-changing functions as one type of calls, each with its arguments
  (\<open>msg.value\<close> last for the two payable functions; the others are called without
  value).
\<close>

datatype call =
    RegisterAgent string string string string
  | CreateCapsule string string string string uint256
  | Stake string uint256
  | Unstake string uint256
  | QueryCapsule address string uint256
  | WithdrawEarnings string
  | UpdateCapsulePrice string uint256

text \<open>
  What the account of a caller does when the contract transfers value to it during a
  call: the calls it makes back into the contract while it holds control, in order,
  each with its sender and with what happens in turn when that call pays out; and
  whether it accepts the value in the end (if it does not, its frame reverts and
  everything it did is undone). An externally owned account, and a contract with an
  empty \<open>receive\<close>, is \<open>Reaction [] True\<close>; a contract without a payable
  \<open>receive\<close> is \<open>Reaction [] False\<close>.
\<close>

datatype reaction = Reaction "(address \<times> call \<times> reaction) list" bool

text \<open>
  What a call brings with it: \<open>msg.sender\<close>, \<open>block.timestamp\<close>, and the
  reaction of the caller's account to a value transfer made to it during the call.
\<close>

record ctx =
  msg_sender :: address
  block_timestamp :: uint256
  reaction :: reaction

definition recipient_accepts :: "ctx \<Rightarrow> bool" where
  "recipient_accepts c = (case reaction c of Reaction cs ok \<Rightarrow> ok)"

subsection \<open>6. The platform: checked arithmetic, value transfer, revert\<close>

definition checked_add :: "uint256 \<Rightarrow> uint256 \<Rightarrow> uint256 option" where
  "checked_add a b = (if unat a + unat b < 2 ^ 256 then Some (a + b) else None)"

definition checked_sub :: "uint256 \<Rightarrow> uint256 \<Rightarrow> uint256 option" where
  "checked_sub a b = (if b \<le> a then Some (a - b) else None)"

text \<open>
  A value transfer \<open>payable(to).call{value: amount}("")\<close> takes the recipient, the
  amount and the storage, and returns \<open>success\<close> and the storage after it. The
  three functions that make one take the transfer as their first argument;
  \<open>call_value\<close> below is the transfer of the platform.
\<close>

type_synonym 'k transfer = "address \<Rightarrow> uint256 \<Rightarrow> 'k state \<Rightarrow> bool \<times> 'k state"

text \<open>
  A function body runs on the storage and either finishes or reverts. A revert
  carries the error and the storage as the body left it at that point; \<open>transact\<close>
  is the platform's message call: it credits the attached value, runs the body, and on
  a revert throws the body's storage away and keeps the storage from before the call.
\<close>

datatype 'k outcome = Reverted error "'k state" | Done "'k state"

datatype result = Success | Failure error

definition transact :: "nat \<Rightarrow> ('k state \<Rightarrow> 'k outcome) \<Rightarrow> 'k state \<Rightarrow> result \<times> 'k state" where
  "transact v body s =
     (case body (s\<lparr>balance := balance s + v\<rparr>) of
        Reverted e dirty \<Rightarrow> (Failure e, s)
      | Done s' \<Rightarrow> (Success, s'))"

text \<open>Writes through a storage reference.\<close>

definition set_capsule :: "'k \<Rightarrow> Capsule \<Rightarrow> 'k state \<Rightarrow> 'k state" where
  "set_capsule k c s = s\<lparr>capsules := (capsules s)(k := c)\<rparr>"

definition set_stake :: "'k \<Rightarrow> address \<Rightarrow> Staking \<Rightarrow> 'k state \<Rightarrow> 'k state" where
  "set_stake k a st s = s\<lparr>stakes := (stakes s)(k := (stakes s k)(a := st))\<rparr>"

definition set_earnings :: "'k \<Rightarrow> Earnings \<Rightarrow> 'k state \<Rightarrow> 'k state" where
  "set_earnings k e s = s\<lparr>earnings := (earnings s)(k := e)\<rparr>"

subsection \<open>7. Core functions\<close>

definition registerAgent_body ::
  "(address \<Rightarrow> string \<Rightarrow> 'k) \<Rightarrow> ctx \<Rightarrow> string \<Rightarrow> string \<Rightarrow> string \<Rightarrow> string \<Rightarrow> 'k state \<Rightarrow> 'k outcome" where
  "registerAgent_body H c agentId' name' displayName' platform' s =
     (if length agentId' < MIN_STRING_LENGTH then Reverted EmptyString s
      else if length name' < MIN_STRING_LENGTH then Reverted EmptyString s
      else if length agentId' > 32 then Reverted InvalidMetadataLength s
      else if length name' > 128 then Reverted InvalidMetadataLength s
      else
        let agentKey = H (msg_sender c) agentId';
            agent = agents s agentKey
        in
          if agent_exists agent then Reverted (Error ''Agent already exists'') s
          else Done (s\<lparr>
            agents := (agents s)(agentKey :=
              \<lparr>owner = msg_sender c, agentId = agentId', agent_name = name',
               displayName = displayName', platform = platform',
               agent_createdAt = block_timestamp c, reputation = 10000,
               agent_exists = True\<rparr>),
            ownerAgents := (ownerAgents s)(msg_sender c := ownerAgents s (msg_sender c) @ [agentId']),
            events := events s @ [AgentRegistered (msg_sender c) agentId'],
            agentRegisteredHistory := agentRegisteredHistory s @
              [AgentRegisteredLog (msg_sender c) agentId' (block_timestamp c)]\<rparr>))"

definition registerAgent ::
  "(address \<Rightarrow> string \<Rightarrow> 'k) \<Rightarrow> ctx \<Rightarrow> string \<Rightarrow> string \<Rightarrow> string \<Rightarrow> string \<Rightarrow> 'k state \<Rightarrow> result \<times> 'k state" where
  "registerAgent H c agentId' name' displayName' platform' =
     transact 0 (registerAgent_body H c agentId' name' displayName' platform')"

definition createCapsule_body ::
  "(address \<Rightarrow> string \<Rightarrow> 'k) \<Rightarrow> ctx \<Rightarrow> string \<Rightarrow> string \<Rightarrow> string \<Rightarrow> string \<Rightarrow> uint256 \<Rightarrow> 'k state \<Rightarrow> 'k outcome" where
  "createCapsule_body H c capsuleId' name' description' category' price' s =
     (if length capsuleId' < MIN_STRING_LENGTH then Reverted EmptyString s
      else if length capsuleId' > 32 then Reverted InvalidMetadataLength s
      else if price' < MIN_PRICE_PER_QUERY then Reverted InvalidPrice s
      else if price' > MAX_PRICE_PER_QUERY then Reverted PriceTooHigh s
      else
        let capsuleKey = H (msg_sender c) capsuleId';
            capsule = capsules s capsuleKey
        in
          if capsule_exists capsule then Reverted (Error ''Capsule already exists'') s
          else Done (s\<lparr>
            capsules := (capsules s)(capsuleKey :=
              \<lparr>creator = msg_sender c, capsuleId = capsuleId', capsule_name = name',
               description = description', category = category', price = price',
               totalStake = 0, createdAt = block_timestamp c,
               updatedAt = block_timestamp c, capsule_earnings = 0,
               capsule_exists = True\<rparr>),
            ownerCapsules := (ownerCapsules s)(msg_sender c := ownerCapsules s (msg_sender c) @ [capsuleId']),
            events := events s @ [CapsuleCreated (msg_sender c) capsuleId'],
            capsuleCreatedHistory := capsuleCreatedHistory s @
              [CapsuleCreatedLog (msg_sender c) capsuleId' (block_timestamp c)]\<rparr>))"

definition createCapsule ::
  "(address \<Rightarrow> string \<Rightarrow> 'k) \<Rightarrow> ctx \<Rightarrow> string \<Rightarrow> string \<Rightarrow> string \<Rightarrow> string \<Rightarrow> uint256 \<Rightarrow> 'k state \<Rightarrow> result \<times> 'k state" where
  "createCapsule H c capsuleId' name' description' category' price' =
     transact 0 (createCapsule_body H c capsuleId' name' description' category' price')"

text \<open>
  \<open>stake\<close>, after its checks: both branches of \<open>if (!userStake.exists)\<close> add the
  amount to \<open>capsule.totalStake\<close> and set \<open>lockUntil\<close>; only the first-deposit
  branch writes \<open>stakedAt\<close> and \<open>exists\<close>. \<open>stake_finish\<close> is the common tail
  (\<open>capsule.updatedAt\<close>, the event, the history entry).
\<close>

definition stake_finish :: "ctx \<Rightarrow> 'k \<Rightarrow> string \<Rightarrow> uint256 \<Rightarrow> 'k state \<Rightarrow> 'k outcome" where
  "stake_finish c capsuleKey capsuleId' amount s =
     Done (set_capsule capsuleKey ((capsules s capsuleKey)\<lparr>updatedAt := block_timestamp c\<rparr>) s
       \<lparr>events := events s @ [StakedOnCapsule (msg_sender c) capsuleId' amount],
        stakedOnCapsuleHistory := stakedOnCapsuleHistory s @
          [StakedOnCapsuleLog (msg_sender c) capsuleId' amount (block_timestamp c)]\<rparr>)"

definition stake_body ::
  "(address \<Rightarrow> string \<Rightarrow> 'k) \<Rightarrow> ctx \<Rightarrow> string \<Rightarrow> uint256 \<Rightarrow> 'k state \<Rightarrow> 'k outcome" where
  "stake_body H c capsuleId' amount s =
     (if amount < MIN_STAKE_AMOUNT then Reverted InsufficientPayment s
      else if amount > MAX_STAKE_AMOUNT then Reverted StakeTooHigh s
      else
        let capsuleKey = H (msg_sender c) capsuleId';
            capsule = capsules s capsuleKey
        in
          if \<not> capsule_exists capsule then Reverted CapsuleNotFound s
          else if creator capsule \<noteq> msg_sender c then Reverted Unauthorized s
          else
            let userStake = stakes s capsuleKey (msg_sender c) in
              if \<not> stake_exists userStake then
                (case checked_add (totalStake capsule) amount of
                   None \<Rightarrow> Reverted Panic s
                 | Some newTotal \<Rightarrow>
                     let s1 = set_capsule capsuleKey (capsule\<lparr>totalStake := newTotal\<rparr>) s;
                         s2 = set_stake capsuleKey (msg_sender c)
                                (userStake\<lparr>stakedAt := block_timestamp c\<rparr>) s1
                     in
                       (case checked_add (block_timestamp c) LOCK_PERIOD_SECONDS of
                          None \<Rightarrow> Reverted Panic s2
                        | Some lock \<Rightarrow>
                            stake_finish c capsuleKey capsuleId' amount
                              (set_stake capsuleKey (msg_sender c)
                                 (userStake\<lparr>stakedAt := block_timestamp c, lockUntil := lock,
                                    stake_exists := True\<rparr>) s2)))
              else
                (case checked_add (totalStake capsule) amount of
                   None \<Rightarrow> Reverted Panic s
                 | Some newTotal \<Rightarrow>
                     let s1 = set_capsule capsuleKey (capsule\<lparr>totalStake := newTotal\<rparr>) s
                     in
                       (case checked_add (block_timestamp c) LOCK_PERIOD_SECONDS of
                          None \<Rightarrow> Reverted Panic s1
                        | Some lock \<Rightarrow>
                            stake_finish c capsuleKey capsuleId' amount
                              (set_stake capsuleKey (msg_sender c)
                                 (userStake\<lparr>lockUntil := lock\<rparr>) s1))))"

definition stake ::
  "(address \<Rightarrow> string \<Rightarrow> 'k) \<Rightarrow> ctx \<Rightarrow> string \<Rightarrow> uint256 \<Rightarrow> 'k state \<Rightarrow> result \<times> 'k state" where
  "stake H c capsuleId' amount = transact (unat amount) (stake_body H c capsuleId' amount)"

definition unstake_code ::
  "'k transfer \<Rightarrow> (address \<Rightarrow> string \<Rightarrow> 'k) \<Rightarrow> ctx \<Rightarrow> string \<Rightarrow> uint256 \<Rightarrow> 'k state \<Rightarrow> 'k outcome" where
  "unstake_code call H c capsuleId' amount s =
     (if amount = 0 then Reverted InsufficientPayment s
      else
        let capsuleKey = H (msg_sender c) capsuleId';
            capsule = capsules s capsuleKey
        in
          if \<not> capsule_exists capsule then Reverted CapsuleNotFound s
          else
            let userStake = stakes s capsuleKey (msg_sender c) in
              if \<not> stake_exists userStake \<or> totalStake capsule < amount
              then Reverted InsufficientStake s
              else if block_timestamp c < lockUntil userStake then Reverted StakeLocked s
              else
                (case checked_sub (totalStake capsule) amount of
                   None \<Rightarrow> Reverted Panic s
                 | Some newTotal \<Rightarrow>
                     let s1 = set_capsule capsuleKey
                                (capsule\<lparr>totalStake := newTotal, updatedAt := block_timestamp c\<rparr>) s;
                         (success, s2) = call (msg_sender c) amount s1
                     in
                       if \<not> success then Reverted TransferFailed s2
                       else Done (s2\<lparr>
                         events := events s2 @ [UnstakedFromCapsule (msg_sender c) capsuleId' amount],
                         unstakedFromCapsuleHistory := unstakedFromCapsuleHistory s2 @
                           [UnstakedFromCapsuleLog (msg_sender c) capsuleId' amount
                              (block_timestamp c)]\<rparr>)))"

definition queryCapsule_log :: "ctx \<Rightarrow> string \<Rightarrow> uint256 \<Rightarrow> 'k state \<Rightarrow> 'k outcome" where
  "queryCapsule_log c capsuleId' cost s =
     Done (s\<lparr>events := events s @ [CapsuleQueried (msg_sender c) capsuleId' cost],
             capsuleQueriedHistory := capsuleQueriedHistory s @
               [CapsuleQueriedLog (msg_sender c) capsuleId' cost (block_timestamp c)]\<rparr>)"

definition queryCapsule_code ::
  "'k transfer \<Rightarrow> (address \<Rightarrow> string \<Rightarrow> 'k) \<Rightarrow> ctx \<Rightarrow> address \<Rightarrow> string \<Rightarrow> uint256 \<Rightarrow> 'k state \<Rightarrow> 'k outcome" where
  "queryCapsule_code call H c creator' capsuleId' msg_value s =
     (let capsuleKey = H creator' capsuleId';
          capsule = capsules s capsuleKey
      in
        if \<not> capsule_exists capsule then Reverted CapsuleNotFound s
        else
          let cost = price capsule in
            if msg_value < cost then Reverted InsufficientPayment s
            else
              let earningRecord = earnings s capsuleKey in
                (case checked_add (capsule_earnings capsule) cost of
                   None \<Rightarrow> Reverted Panic s
                 | Some ce \<Rightarrow>
                let s1 = set_capsule capsuleKey (capsule\<lparr>capsule_earnings := ce\<rparr>) s in
                (case checked_add (totalEarnings earningRecord) cost of
                   None \<Rightarrow> Reverted Panic s1
                 | Some te \<Rightarrow>
                let s2 = set_earnings capsuleKey (earningRecord\<lparr>totalEarnings := te\<rparr>) s1 in
                (case checked_add (queryCount earningRecord) 1 of
                   None \<Rightarrow> Reverted Panic s2
                 | Some qc \<Rightarrow>
                let s3 = set_earnings capsuleKey
                           (earningRecord\<lparr>totalEarnings := te, queryCount := qc,
                              lastUpdated := block_timestamp c\<rparr>) s2
                in
                (case checked_sub msg_value cost of
                   None \<Rightarrow> Reverted Panic s3
                 | Some excess \<Rightarrow>
                     if excess > 0 then
                       (let (success, s4) = call (msg_sender c) excess s3
                        in
                          if \<not> success then Reverted TransferFailed s4
                          else queryCapsule_log c capsuleId' cost s4)
                     else queryCapsule_log c capsuleId' cost s3)))))"

definition withdrawEarnings_code ::
  "'k transfer \<Rightarrow> (address \<Rightarrow> string \<Rightarrow> 'k) \<Rightarrow> ctx \<Rightarrow> string \<Rightarrow> 'k state \<Rightarrow> 'k outcome" where
  "withdrawEarnings_code call H c capsuleId' s =
     (let capsuleKey = H (msg_sender c) capsuleId';
          earningRecord = earnings s capsuleKey;
          capsule = capsules s capsuleKey;
          amount = totalEarnings earningRecord
      in
        if amount = 0 then Reverted InsufficientPayment s
        else if balance s < unat amount then Reverted TransferFailed s
        else
          let s1 = set_earnings capsuleKey (earningRecord\<lparr>totalEarnings := 0\<rparr>) s;
              s2 = set_capsule capsuleKey (capsule\<lparr>capsule_earnings := 0\<rparr>) s1;
              (success, s3) = call (msg_sender c) amount s2
          in
            if \<not> success then Reverted TransferFailed s3
            else Done (s3\<lparr>
              events := events s3 @ [EarningsWithdrawn (msg_sender c) amount],
              earningsWithdrawnHistory := earningsWithdrawnHistory s3 @
                [EarningsWithdrawnLog (msg_sender c) amount (block_timestamp c)]\<rparr>))"

definition updateCapsulePrice_body ::
  "(address \<Rightarrow> string \<Rightarrow> 'k) \<Rightarrow> ctx \<Rightarrow> string \<Rightarrow> uint256 \<Rightarrow> 'k state \<Rightarrow> 'k outcome" where
  "updateCapsulePrice_body H c capsuleId' newPrice s =
     (if newPrice < MIN_PRICE_PER_QUERY then Reverted InvalidPrice s
      else if newPrice > MAX_PRICE_PER_QUERY then Reverted PriceTooHigh s
      else
        let capsuleKey = H (msg_sender c) capsuleId';
            capsule = capsules s capsuleKey
        in
          if \<not> capsule_exists capsule then Reverted CapsuleNotFound s
          else if msg_sender c \<noteq> creator capsule then Reverted Unauthorized s
          else Done (set_capsule capsuleKey
                 (capsule\<lparr>price := newPrice, updatedAt := block_timestamp c\<rparr>) s
            \<lparr>events := events s @ [PriceUpdated capsuleId' newPrice],
             priceUpdatedHistory := priceUpdatedHistory s @
               [PriceUpdatedLog capsuleId' newPrice (block_timestamp c)]\<rparr>))"

definition updateCapsulePrice ::
  "(address \<Rightarrow> string \<Rightarrow> 'k) \<Rightarrow> ctx \<Rightarrow> string \<Rightarrow> uint256 \<Rightarrow> 'k state \<Rightarrow> result \<times> 'k state" where
  "updateCapsulePrice H c capsuleId' newPrice =
     transact 0 (updateCapsulePrice_body H c capsuleId' newPrice)"

subsection \<open>The value transfer of the platform\<close>

text \<open>
  \<open>dispatch\<close> is a message call to the contract, given the transfer that the called
  function is to use.
\<close>

definition dispatch ::
  "'k transfer \<Rightarrow> (address \<Rightarrow> string \<Rightarrow> 'k) \<Rightarrow> ctx \<Rightarrow> call \<Rightarrow> 'k state \<Rightarrow> result \<times> 'k state" where
  "dispatch call H c x s =
     (case x of
        RegisterAgent a n d p \<Rightarrow> registerAgent H c a n d p s
      | CreateCapsule i n d g p \<Rightarrow> createCapsule H c i n d g p s
      | Stake i v \<Rightarrow> stake H c i v s
      | Unstake i a \<Rightarrow> transact 0 (unstake_code call H c i a) s
      | QueryCapsule cr i v \<Rightarrow> transact (unat v) (queryCapsule_code call H c cr i v) s
      | WithdrawEarnings i \<Rightarrow> transact 0 (withdrawEarnings_code call H c i) s
      | UpdateCapsulePrice i p \<Rightarrow> updateCapsulePrice H c i p s)"

text \<open>
  \<open>call_value H t r\<close> is the transfer during a call at timestamp \<open>t\<close> whose
  recipient reacts as \<open>r\<close>. It fails, with the storage untouched, when the contract
  does not hold the amount or the recipient does not accept. Otherwise the amount
  leaves the contract and the recipient's code runs: each of its calls back into the
  contract is a message call of its own (in the same block, so with the same
  timestamp), which changes the storage if it succeeds and leaves it if it fails, and
  whose own transfers react as the call's reaction says.
\<close>

fun call_value :: "(address \<Rightarrow> string \<Rightarrow> 'k) \<Rightarrow> uint256 \<Rightarrow> reaction \<Rightarrow> 'k transfer" where
  "call_value H t (Reaction cs ok) = (\<lambda>to amount s.
     if unat amount \<le> balance s \<and> ok
     then (True,
           fold (\<lambda>(a, x, r) st.
                   snd (dispatch (call_value H t r) H
                          \<lparr>msg_sender = a, block_timestamp = t, reaction = r\<rparr> x st))
                cs
                (s\<lparr>balance := balance s - unat amount, payouts := payouts s @ [(to, amount)]\<rparr>))
     else (False, s))"

text \<open>The three functions with the platform's transfer, and as message calls.\<close>

definition unstake_body ::
  "(address \<Rightarrow> string \<Rightarrow> 'k) \<Rightarrow> ctx \<Rightarrow> string \<Rightarrow> uint256 \<Rightarrow> 'k state \<Rightarrow> 'k outcome" where
  "unstake_body H c capsuleId' amount =
     unstake_code (call_value H (block_timestamp c) (reaction c)) H c capsuleId' amount"

definition unstake ::
  "(address \<Rightarrow> string \<Rightarrow> 'k) \<Rightarrow> ctx \<Rightarrow> string \<Rightarrow> uint256 \<Rightarrow> 'k state \<Rightarrow> result \<times> 'k state" where
  "unstake H c capsuleId' amount = transact 0 (unstake_body H c capsuleId' amount)"

definition queryCapsule_body ::
  "(address \<Rightarrow> string \<Rightarrow> 'k) \<Rightarrow> ctx \<Rightarrow> address \<Rightarrow> string \<Rightarrow> uint256 \<Rightarrow> 'k state \<Rightarrow> 'k outcome" where
  "queryCapsule_body H c creator' capsuleId' msg_value =
     queryCapsule_code (call_value H (block_timestamp c) (reaction c)) H c creator' capsuleId'
       msg_value"

definition queryCapsule ::
  "(address \<Rightarrow> string \<Rightarrow> 'k) \<Rightarrow> ctx \<Rightarrow> address \<Rightarrow> string \<Rightarrow> uint256 \<Rightarrow> 'k state \<Rightarrow> result \<times> 'k state" where
  "queryCapsule H c creator' capsuleId' msg_value =
     transact (unat msg_value) (queryCapsule_body H c creator' capsuleId' msg_value)"

definition withdrawEarnings_body ::
  "(address \<Rightarrow> string \<Rightarrow> 'k) \<Rightarrow> ctx \<Rightarrow> string \<Rightarrow> 'k state \<Rightarrow> 'k outcome" where
  "withdrawEarnings_body H c capsuleId' =
     withdrawEarnings_code (call_value H (block_timestamp c) (reaction c)) H c capsuleId'"

definition withdrawEarnings ::
  "(address \<Rightarrow> string \<Rightarrow> 'k) \<Rightarrow> ctx \<Rightarrow> string \<Rightarrow> 'k state \<Rightarrow> result \<times> 'k state" where
  "withdrawEarnings H c capsuleId' = transact 0 (withdrawEarnings_body H c capsuleId')"

subsection \<open>8. View functions\<close>

definition getCapsuleDetails :: "(address \<Rightarrow> string \<Rightarrow> 'k) \<Rightarrow> address \<Rightarrow> string \<Rightarrow> 'k state \<Rightarrow> Capsule" where
  "getCapsuleDetails H creator' capsuleId' s = capsules s (H creator' capsuleId')"

definition getAgentDetails :: "(address \<Rightarrow> string \<Rightarrow> 'k) \<Rightarrow> address \<Rightarrow> string \<Rightarrow> 'k state \<Rightarrow> Agent" where
  "getAgentDetails H owner' agentId' s = agents s (H owner' agentId')"

definition getStakeDetails ::
  "(address \<Rightarrow> string \<Rightarrow> 'k) \<Rightarrow> address \<Rightarrow> string \<Rightarrow> address \<Rightarrow> 'k state \<Rightarrow> Staking" where
  "getStakeDetails H creator' capsuleId' staker s = stakes s (H creator' capsuleId') staker"

subsection \<open>Sequences of calls\<close>

text \<open>
  \<open>exec\<close> is a message call to the contract from outside, and \<open>run\<close> applies a
  sequence of them in order, each with its own sender, timestamp and reaction. A call
  that fails leaves the storage as it was and the sequence goes on.
\<close>

fun exec :: "(address \<Rightarrow> string \<Rightarrow> 'k) \<Rightarrow> ctx \<Rightarrow> call \<Rightarrow> 'k state \<Rightarrow> result \<times> 'k state" where
  "exec H c (RegisterAgent a n d p) s = registerAgent H c a n d p s"
| "exec H c (CreateCapsule i n d g p) s = createCapsule H c i n d g p s"
| "exec H c (Stake i v) s = stake H c i v s"
| "exec H c (Unstake i a) s = unstake H c i a s"
| "exec H c (QueryCapsule cr i v) s = queryCapsule H c cr i v s"
| "exec H c (WithdrawEarnings i) s = withdrawEarnings H c i s"
| "exec H c (UpdateCapsulePrice i p) s = updateCapsulePrice H c i p s"

fun run :: "(address \<Rightarrow> string \<Rightarrow> 'k) \<Rightarrow> 'k state \<Rightarrow> (ctx \<times> call) list \<Rightarrow> 'k state" where
  "run H s [] = s"
| "run H s ((c, x) # xs) = run H (snd (exec H c x s)) xs"

text \<open>
  All calls that reach the contract in the course of a call: the call itself and the
  calls made back into the contract during its transfers, each with its sender.
  \<open>created_pairs\<close> are the pairs of address and id under which the calls of a
  sequence create an agent or a capsule.
\<close>

fun nested_calls :: "reaction \<Rightarrow> (address \<times> call) list" where
  "nested_calls (Reaction cs ok) = concat (map (\<lambda>(a, x, r). (a, x) # nested_calls r) cs)"

fun calls_of :: "ctx \<times> call \<Rightarrow> (address \<times> call) list" where
  "calls_of (c, x) = (msg_sender c, x) # nested_calls (reaction c)"

fun creates :: "address \<times> call \<Rightarrow> (address \<times> string) list" where
  "creates (a, RegisterAgent i n d p) = [(a, i)]"
| "creates (a, CreateCapsule i n d g p) = [(a, i)]"
| "creates (a, x) = []"

definition created_pairs :: "(ctx \<times> call) list \<Rightarrow> (address \<times> string) set" where
  "created_pairs tr = set (concat (map creates (concat (map calls_of tr))))"

text \<open>
  The hash is collision-free on a set of pairs when two keys of pairs of the set are equal
  only for the same address and the same id. The pair itself is a key that is
  collision-free on every set.
\<close>

definition collision_free_on :: "(address \<Rightarrow> string \<Rightarrow> 'k) \<Rightarrow> (address \<times> string) set \<Rightarrow> bool" where
  "collision_free_on H S =
     (\<forall>a i b j. (a, i) \<in> S \<and> (b, j) \<in> S \<and> H a i = H b j \<longrightarrow> a = b \<and> i = j)"

definition packed :: "address \<Rightarrow> string \<Rightarrow> address \<times> string" where
  "packed a i = (a, i)"

subsection \<open>Predicates used in the proofs\<close>



text \<open>
  \<open>lockstep\<close>: at every key the capsule's \<open>earnings\<close> mirror the earnings
  record's \<open>totalEarnings\<close>, and a key with no capsule has earned nothing.
  \<open>keyed_in\<close>: every existing capsule and agent sits at the key of its own creator
  (owner) and id, and that pair is in the given set.
\<close>

definition lockstep :: "'k state \<Rightarrow> bool" where
  "lockstep s = (\<forall>k. capsule_earnings (capsules s k) = totalEarnings (earnings s k) \<and>
      (\<not> capsule_exists (capsules s k) \<longrightarrow> totalEarnings (earnings s k) = 0))"

definition keyed_in :: "(address \<Rightarrow> string \<Rightarrow> 'k) \<Rightarrow> (address \<times> string) set \<Rightarrow> 'k state \<Rightarrow> bool" where
  "keyed_in H S s = (\<forall>k.
      (capsule_exists (capsules s k) \<longrightarrow>
         k = H (creator (capsules s k)) (capsuleId (capsules s k)) \<and>
         (creator (capsules s k), capsuleId (capsules s k)) \<in> S) \<and>
      (agent_exists (agents s k) \<longrightarrow>
         k = H (owner (agents s k)) (agentId (agents s k)) \<and>
         (owner (agents s k), agentId (agents s k)) \<in> S))"

subsection \<open>A concrete run\<close>

text \<open>
  The scenario of the specification's section 8, with owner A = 1, user B = 2 and
  T = 1000: A registers an agent and creates the capsule \<open>cap1\<close> at price
  0.05 units, stakes 0.1 units at T, and B queries the capsule with 0.1 units.
  \<open>caller\<close> is an account that accepts transfers and does nothing else,
  \<open>refusing\<close> one that does not accept them, and \<open>reentering\<close> one that makes
  one call back into the contract, as itself, and then accepts.
\<close>

definition caller :: "address \<Rightarrow> uint256 \<Rightarrow> ctx" where
  "caller a t = \<lparr>msg_sender = a, block_timestamp = t, reaction = Reaction [] True\<rparr>"

definition refusing :: "address \<Rightarrow> uint256 \<Rightarrow> ctx" where
  "refusing a t = \<lparr>msg_sender = a, block_timestamp = t, reaction = Reaction [] False\<rparr>"

definition reentering :: "address \<Rightarrow> uint256 \<Rightarrow> call \<Rightarrow> ctx" where
  "reentering a t x =
     \<lparr>msg_sender = a, block_timestamp = t, reaction = Reaction [(a, x, Reaction [] True)] True\<rparr>"

definition created_trace :: "(ctx \<times> call) list" where
  "created_trace =
     [(caller 1 1000, RegisterAgent ''agent1'' ''Agent One'' ''A1'' ''openai''),
      (caller 1 1000, CreateCapsule ''cap1'' ''Capsule One'' ''notes'' ''coding'' 50000000000000000)]"

definition created :: "(address \<times> string) state" where
  "created = run packed init created_trace"

definition staked :: "(address \<times> string) state" where
  "staked = snd (stake packed (caller 1 1000) ''cap1'' 100000000000000000 created)"

definition queried :: "(address \<times> string) state" where
  "queried = snd (queryCapsule packed (caller 2 2000) 1 ''cap1'' 100000000000000000 staked)"

text \<open>
  Further states of the run: A tops the stake up at time 2000; A withdraws the earnings
  of the query at time 3000; A takes 0.01 units of stake out once the lock has expired;
  the state after the agent's registration alone; and a state in which B has created a
  capsule of its own under the same id \<open>cap1\<close>.
\<close>

definition topped :: "(address \<times> string) state" where
  "topped = snd (stake packed (caller 1 2000) ''cap1'' 100000000000000000 staked)"


definition unstaked :: "(address \<times> string) state" where
  "unstaked = snd (unstake packed (caller 1 605800) ''cap1'' 10000000000000000 staked)"

definition registered :: "(address \<times> string) state" where
  "registered = snd (registerAgent packed (caller 1 1000) ''agent1'' ''Agent One'' ''A1'' ''openai'' init)"

definition both_trace :: "(ctx \<times> call) list" where
  "both_trace =
     [(caller 1 1000, RegisterAgent ''agent1'' ''Agent One'' ''A1'' ''openai''),
      (caller 1 1000, CreateCapsule ''cap1'' ''Capsule One'' ''notes'' ''coding'' 50000000000000000),
      (caller 2 1500, CreateCapsule ''cap1'' ''Capsule Two'' ''other'' ''finance'' 70000000000000000)]"

definition both_created :: "(address \<times> string) state" where
  "both_created = run packed init both_trace"

section \<open>Proofs\<close>

subsection \<open>Unfolding\<close>

lemmas plain_defs = registerAgent_def registerAgent_body_def createCapsule_def createCapsule_body_def
  stake_def stake_body_def stake_finish_def updateCapsulePrice_def updateCapsulePrice_body_def
  set_capsule_def set_stake_def set_earnings_def

lemmas code_defs = unstake_code_def queryCapsule_code_def queryCapsule_log_def withdrawEarnings_code_def

lemmas closed_defs = unstake_def unstake_body_def queryCapsule_def queryCapsule_body_def
  withdrawEarnings_def withdrawEarnings_body_def

lemmas const_defs = MAX_PRICE_PER_QUERY_def MIN_PRICE_PER_QUERY_def MAX_STAKE_AMOUNT_def
  MIN_STAKE_AMOUNT_def MIN_STRING_LENGTH_def LOCK_PERIOD_SECONDS_def

lemmas zero_defs = init_def zero_Agent_def zero_Capsule_def zero_Staking_def zero_Earnings_def

lemma dispatch_exec:
  "dispatch (call_value H (block_timestamp c) (reaction c)) H c x s = exec H c x s"
  by (cases x) (simp_all add: dispatch_def closed_defs)

lemma call_value_exec:
  "call_value H t (Reaction cs ok) to amount s =
     (if unat amount \<le> balance s \<and> ok
      then (True,
            fold (\<lambda>(a, x, r) st.
                    snd (exec H \<lparr>msg_sender = a, block_timestamp = t, reaction = r\<rparr> x st))
                 cs
                 (s\<lparr>balance := balance s - unat amount, payouts := payouts s @ [(to, amount)]\<rparr>))
      else (False, s))"
  by (simp add: dispatch_exec [symmetric])

lemma call_value_plain:
  "call_value H t (Reaction [] ok) to amount s =
     (if unat amount \<le> balance s \<and> ok
      then (True, s\<lparr>balance := balance s - unat amount, payouts := payouts s @ [(to, amount)]\<rparr>)
      else (False, s))"
  by simp

lemma call_value_fails:
  "\<not> (unat amount \<le> balance s \<and> recipient_accepts c) \<Longrightarrow>
     call_value H t (reaction c) to amount s = (False, s)"
  by (cases "reaction c") (auto simp: recipient_accepts_def)

lemma fold_preserves:
  "(\<And>y st. y \<in> set cs \<Longrightarrow> P st \<Longrightarrow> P (f y st)) \<Longrightarrow> P s \<Longrightarrow> P (fold f cs s)"
  by (induction cs arbitrary: s) auto

lemma nested_calls_mem:
  "(a, x, r) \<in> set cs \<Longrightarrow>
     (a, x) \<in> set (nested_calls (Reaction cs ok)) \<and>
     set (nested_calls r) \<subseteq> set (nested_calls (Reaction cs ok))"
  by (induction cs) auto

subsection \<open>Invariants through a transfer\<close>

lemma call_value_preserves:
  assumes step: "\<And>call c x s. G (msg_sender c, x) \<Longrightarrow> P s \<Longrightarrow>
      (\<And>to amt st b st'. P st \<Longrightarrow> call to amt st = (b, st') \<Longrightarrow> P st') \<Longrightarrow>
      P (snd (dispatch call H c x s))"
    and debit: "\<And>s n p. P s \<Longrightarrow> P (s\<lparr>balance := n, payouts := p\<rparr>)"
  shows "\<forall>y \<in> set (nested_calls r). G y \<Longrightarrow> P st \<Longrightarrow>
           call_value H t r to amt st = (b, st') \<Longrightarrow> P st'"
proof (induction r arbitrary: to amt st b st')
  case (Reaction cs ok)
  show ?case
  proof (cases "unat amt \<le> balance st \<and> ok")
    case False
    then have "st' = st" using Reaction.prems(3) by (simp split: if_splits)
    then show ?thesis using Reaction.prems(2) by simp
  next
    case True
    let ?s1 = "st\<lparr>balance := balance st - unat amt, payouts := payouts st @ [(to, amt)]\<rparr>"
    let ?f = "\<lambda>(a, x, r) st.
                   snd (dispatch (call_value H t r) H
                          \<lparr>msg_sender = a, block_timestamp = t, reaction = r\<rparr> x st)"
    have st': "st' = fold ?f cs ?s1"
      using True Reaction.prems(3) by simp
    have P1: "P ?s1" using Reaction.prems(2) by (rule debit)
    have "P (fold ?f cs ?s1)"
    proof (rule fold_preserves [where P = P, OF _ P1])
      fix y s
      assume y: "y \<in> set cs" and Ps: "P s"
      obtain a x r where yd: "y = (a, x, r)" by (cases y)
      have mem: "(a, x, r) \<in> set cs" using y yd by simp
      note nm = nested_calls_mem [OF mem, of ok]
      have G: "G (a, x)" using Reaction.prems(1) nm by blast
      have Gr: "\<forall>z \<in> set (nested_calls r). G z" using Reaction.prems(1) nm by blast
      have r1: "(x, r) \<in> Basic_BNFs.snds y" and r2: "r \<in> Basic_BNFs.snds (x, r)"
        by (simp_all add: yd)
      have IH: "P st'" if "P st" and "call_value H t r to amt st = (b, st')" for to amt st b st'
        using Reaction.IH [OF y r1 r2 Gr that] .
      have "P (snd (dispatch (call_value H t r) H
                \<lparr>msg_sender = a, block_timestamp = t, reaction = r\<rparr> x s))"
      proof (rule step)
        show "G (msg_sender \<lparr>msg_sender = a, block_timestamp = t, reaction = r\<rparr>, x)"
          using G by simp
        show "P s" by (rule Ps)
        show "P st'" if "P st" and "call_value H t r to amt st = (b, st')" for to amt st b st'
          using that by (rule IH)
      qed
      then show "P (?f y s)" by (simp add: yd)
    qed
    then show ?thesis by (simp add: st')
  qed
qed

lemma exec_preserves:
  assumes step: "\<And>call c x s. G (msg_sender c, x) \<Longrightarrow> P s \<Longrightarrow>
      (\<And>to amt st b st'. P st \<Longrightarrow> call to amt st = (b, st') \<Longrightarrow> P st') \<Longrightarrow>
      P (snd (dispatch call H c x s))"
    and debit: "\<And>s n p. P s \<Longrightarrow> P (s\<lparr>balance := n, payouts := p\<rparr>)"
    and G: "\<forall>y \<in> set (calls_of (c, x)). G y" and Ps: "P s"
  shows "P (snd (exec H c x s))"
proof -
  have G0: "G (msg_sender c, x)" and Gn: "\<forall>y \<in> set (nested_calls (reaction c)). G y"
    using G by simp_all
  have "P (snd (dispatch (call_value H (block_timestamp c) (reaction c)) H c x s))"
  proof (rule step)
    show "G (msg_sender c, x)" by (rule G0)
    show "P s" by (rule Ps)
    show "P st'" if "P st" and "call_value H (block_timestamp c) (reaction c) to amt st = (b, st')"
      for to amt st b st'
      using call_value_preserves [where P = P and G = G, OF step debit Gn that] .
  qed
  then show ?thesis by (simp add: dispatch_exec)
qed

lemma run_preserves:
  assumes step: "\<And>call c x s. G (msg_sender c, x) \<Longrightarrow> P s \<Longrightarrow>
      (\<And>to amt st b st'. P st \<Longrightarrow> call to amt st = (b, st') \<Longrightarrow> P st') \<Longrightarrow>
      P (snd (dispatch call H c x s))"
    and debit: "\<And>s n p. P s \<Longrightarrow> P (s\<lparr>balance := n, payouts := p\<rparr>)"
  shows "\<forall>y \<in> set (concat (map calls_of tr)). G y \<Longrightarrow> P s \<Longrightarrow> P (run H s tr)"
proof (induction tr arbitrary: s)
  case Nil
  then show ?case by simp
next
  case (Cons a tr)
  obtain c x where a: "a = (c, x)" by (cases a)
  have G1: "\<forall>y \<in> set (calls_of (c, x)). G y"
    and G2: "\<forall>y \<in> set (concat (map calls_of tr)). G y"
    using Cons.prems(1) unfolding a by simp_all
  have "P (snd (exec H c x s))"
    using step debit G1 Cons.prems(2) by (rule exec_preserves [where P = P and G = G])
  from Cons.IH [OF G2 this] show ?case by (simp add: a)
qed

subsection \<open>What a finished body has done\<close>

lemma transact_snd:
  "snd (transact v body s) =
     (case body (s\<lparr>balance := balance s + v\<rparr>) of Reverted e d \<Rightarrow> s | Done s' \<Rightarrow> s')"
  by (simp add: transact_def split: outcome.splits)

lemma unstake_code_Done:
  assumes "unstake_code call H c i a s = Done s'"
  obtains s2 where "a \<noteq> 0" and "capsule_exists (capsules s (H (msg_sender c) i))"
    and "stake_exists (stakes s (H (msg_sender c) i) (msg_sender c))"
    and "a \<le> totalStake (capsules s (H (msg_sender c) i))"
    and "lockUntil (stakes s (H (msg_sender c) i) (msg_sender c)) \<le> block_timestamp c"
    and "call (msg_sender c) a
           (set_capsule (H (msg_sender c) i)
              ((capsules s (H (msg_sender c) i))
                 \<lparr>totalStake := totalStake (capsules s (H (msg_sender c) i)) - a,
                  updatedAt := block_timestamp c\<rparr>) s) = (True, s2)"
    and "s' = s2\<lparr>events := events s2 @ [UnstakedFromCapsule (msg_sender c) i a],
                  unstakedFromCapsuleHistory := unstakedFromCapsuleHistory s2 @
                    [UnstakedFromCapsuleLog (msg_sender c) i a (block_timestamp c)]\<rparr>"
  using assms
  by (auto simp: unstake_code_def checked_sub_def Let_def not_less
      split: if_splits option.splits prod.splits)

lemma withdrawEarnings_code_Done:
  assumes "withdrawEarnings_code call H c i s = Done s'"
  obtains s3 where "totalEarnings (earnings s (H (msg_sender c) i)) \<noteq> 0"
    and "unat (totalEarnings (earnings s (H (msg_sender c) i))) \<le> balance s"
    and "call (msg_sender c) (totalEarnings (earnings s (H (msg_sender c) i)))
           (set_capsule (H (msg_sender c) i)
              ((capsules s (H (msg_sender c) i))\<lparr>capsule_earnings := 0\<rparr>)
              (set_earnings (H (msg_sender c) i)
                 ((earnings s (H (msg_sender c) i))\<lparr>totalEarnings := 0\<rparr>) s)) = (True, s3)"
    and "s' = s3\<lparr>events := events s3 @
                    [EarningsWithdrawn (msg_sender c) (totalEarnings (earnings s (H (msg_sender c) i)))],
                  earningsWithdrawnHistory := earningsWithdrawnHistory s3 @
                    [EarningsWithdrawnLog (msg_sender c)
                       (totalEarnings (earnings s (H (msg_sender c) i))) (block_timestamp c)]\<rparr>"
  using assms
  by (auto simp: withdrawEarnings_code_def Let_def not_less
      split: if_splits option.splits prod.splits)

lemma queryCapsule_code_Done:
  assumes "queryCapsule_code call H c cr i v s = Done s'"
  obtains s4 where "capsule_exists (capsules s (H cr i))"
    and "price (capsules s (H cr i)) \<le> v"
    and "unat (capsule_earnings (capsules s (H cr i))) + unat (price (capsules s (H cr i))) < 2 ^ 256"
    and "unat (totalEarnings (earnings s (H cr i))) + unat (price (capsules s (H cr i))) < 2 ^ 256"
    and "unat (queryCount (earnings s (H cr i))) + 1 < 2 ^ 256"
    and "if price (capsules s (H cr i)) < v
         then call (msg_sender c) (v - price (capsules s (H cr i)))
                (set_earnings (H cr i)
                  ((earnings s (H cr i))
                     \<lparr>totalEarnings := totalEarnings (earnings s (H cr i)) + price (capsules s (H cr i)),
                      queryCount := queryCount (earnings s (H cr i)) + 1,
                      lastUpdated := block_timestamp c\<rparr>)
                  (set_earnings (H cr i)
                    ((earnings s (H cr i))
                       \<lparr>totalEarnings := totalEarnings (earnings s (H cr i)) + price (capsules s (H cr i))\<rparr>)
                    (set_capsule (H cr i)
                      ((capsules s (H cr i))
                         \<lparr>capsule_earnings :=
                            capsule_earnings (capsules s (H cr i)) + price (capsules s (H cr i))\<rparr>) s)))
              = (True, s4)
         else s4 =
                set_earnings (H cr i)
                  ((earnings s (H cr i))
                     \<lparr>totalEarnings := totalEarnings (earnings s (H cr i)) + price (capsules s (H cr i)),
                      queryCount := queryCount (earnings s (H cr i)) + 1,
                      lastUpdated := block_timestamp c\<rparr>)
                  (set_earnings (H cr i)
                    ((earnings s (H cr i))
                       \<lparr>totalEarnings := totalEarnings (earnings s (H cr i)) + price (capsules s (H cr i))\<rparr>)
                    (set_capsule (H cr i)
                      ((capsules s (H cr i))
                         \<lparr>capsule_earnings :=
                            capsule_earnings (capsules s (H cr i)) + price (capsules s (H cr i))\<rparr>) s))"
    and "s' = s4\<lparr>events := events s4 @ [CapsuleQueried (msg_sender c) i (price (capsules s (H cr i)))],
                  capsuleQueriedHistory := capsuleQueriedHistory s4 @
                    [CapsuleQueriedLog (msg_sender c) i (price (capsules s (H cr i)))
                       (block_timestamp c)]\<rparr>"
proof -
  have gt: "0 < v - price (capsules s (H cr i)) \<longleftrightarrow> price (capsules s (H cr i)) < v"
    if "price (capsules s (H cr i)) \<le> v"
    using that by (auto simp: word_gt_0)
  show ?thesis
    using assms that gt
    by (auto simp: queryCapsule_code_def queryCapsule_log_def checked_add_def checked_sub_def
        Let_def not_less split: if_splits option.splits prod.splits)
qed

subsection \<open>One message call\<close>

lemma dispatch_preserves:
  assumes P: "P s"
    and call: "\<And>to amt st b st'. P st \<Longrightarrow> call to amt st = (b, st') \<Longrightarrow> P st'"
    and bal: "\<And>s n p. P s \<Longrightarrow> P (s\<lparr>balance := n, payouts := p\<rparr>)"
    and log: "\<And>s ev hu hq hw. P s \<Longrightarrow>
        P (s\<lparr>events := ev, unstakedFromCapsuleHistory := hu, capsuleQueriedHistory := hq,
             earningsWithdrawnHistory := hw\<rparr>)"
    and plain: "(\<forall>i a. x \<noteq> Unstake i a) \<Longrightarrow> (\<forall>cr i v. x \<noteq> QueryCapsule cr i v) \<Longrightarrow>
        (\<forall>i. x \<noteq> WithdrawEarnings i) \<Longrightarrow> P (snd (dispatch call H c x s))"
    and wU: "\<And>i a st. x = Unstake i a \<Longrightarrow> P st \<Longrightarrow>
        capsule_exists (capsules st (H (msg_sender c) i)) \<Longrightarrow>
        P (set_capsule (H (msg_sender c) i)
              ((capsules st (H (msg_sender c) i))
                 \<lparr>totalStake := totalStake (capsules st (H (msg_sender c) i)) - a,
                  updatedAt := block_timestamp c\<rparr>) st)"
    and wQ: "\<And>cr i v st. x = QueryCapsule cr i v \<Longrightarrow> P st \<Longrightarrow>
        capsule_exists (capsules st (H cr i)) \<Longrightarrow>
        P (set_earnings (H cr i)
                  ((earnings st (H cr i))
                     \<lparr>totalEarnings := totalEarnings (earnings st (H cr i)) + price (capsules st (H cr i)),
                      queryCount := queryCount (earnings st (H cr i)) + 1,
                      lastUpdated := block_timestamp c\<rparr>)
                  (set_earnings (H cr i)
                    ((earnings st (H cr i))
                       \<lparr>totalEarnings := totalEarnings (earnings st (H cr i)) + price (capsules st (H cr i))\<rparr>)
                    (set_capsule (H cr i)
                      ((capsules st (H cr i))
                         \<lparr>capsule_earnings :=
                            capsule_earnings (capsules st (H cr i)) + price (capsules st (H cr i))\<rparr>) st)))"
    and wW: "\<And>i st. x = WithdrawEarnings i \<Longrightarrow> P st \<Longrightarrow>
        totalEarnings (earnings st (H (msg_sender c) i)) \<noteq> 0 \<Longrightarrow>
        P (set_capsule (H (msg_sender c) i)
              ((capsules st (H (msg_sender c) i))\<lparr>capsule_earnings := 0\<rparr>)
              (set_earnings (H (msg_sender c) i)
                 ((earnings st (H (msg_sender c) i))\<lparr>totalEarnings := 0\<rparr>) st))"
  shows "P (snd (dispatch call H c x s))"
proof (cases x)
  case (Unstake i a)
  show ?thesis
  proof (cases "unstake_code call H c i a s")
    case (Reverted e d)
    then show ?thesis using P by (simp add: Unstake dispatch_def transact_snd)
  next
    case (Done s')
    from Done obtain s2 where ex: "capsule_exists (capsules s (H (msg_sender c) i))"
      and tr: "call (msg_sender c) a
           (set_capsule (H (msg_sender c) i)
              ((capsules s (H (msg_sender c) i))
                 \<lparr>totalStake := totalStake (capsules s (H (msg_sender c) i)) - a,
                  updatedAt := block_timestamp c\<rparr>) s) = (True, s2)"
      and s': "s' = s2\<lparr>events := events s2 @ [UnstakedFromCapsule (msg_sender c) i a],
                  unstakedFromCapsuleHistory := unstakedFromCapsuleHistory s2 @
                    [UnstakedFromCapsuleLog (msg_sender c) i a (block_timestamp c)]\<rparr>"
      by (rule unstake_code_Done)
    have "P s2" using wU [OF Unstake P ex] tr by (rule call)
    from log [OF this, where ev = "events s2 @ [UnstakedFromCapsule (msg_sender c) i a]" and hu = "unstakedFromCapsuleHistory s2 @
           [UnstakedFromCapsuleLog (msg_sender c) i a (block_timestamp c)]"
        and hq = "capsuleQueriedHistory s2" and hw = "earningsWithdrawnHistory s2"]
    have "P s'" by (simp add: s')
    then show ?thesis by (simp add: Unstake dispatch_def transact_snd Done)
  qed
next
  case (QueryCapsule cr i v)
  let ?s0 = "s\<lparr>balance := balance s + unat v\<rparr>"
  have P0: "P ?s0" using bal [OF P, where n = "balance s + unat v" and p = "payouts s"] by simp
  show ?thesis
  proof (cases "queryCapsule_code call H c cr i v ?s0")
    case (Reverted e d)
    then show ?thesis using P by (simp add: QueryCapsule dispatch_def transact_snd)
  next
    case (Done s')
    let ?pre = "set_earnings (H cr i)
                  ((earnings ?s0 (H cr i))
                     \<lparr>totalEarnings := totalEarnings (earnings ?s0 (H cr i)) + price (capsules ?s0 (H cr i)),
                      queryCount := queryCount (earnings ?s0 (H cr i)) + 1,
                      lastUpdated := block_timestamp c\<rparr>)
                  (set_earnings (H cr i)
                    ((earnings ?s0 (H cr i))
                       \<lparr>totalEarnings := totalEarnings (earnings ?s0 (H cr i)) + price (capsules ?s0 (H cr i))\<rparr>)
                    (set_capsule (H cr i)
                      ((capsules ?s0 (H cr i))
                         \<lparr>capsule_earnings :=
                            capsule_earnings (capsules ?s0 (H cr i)) + price (capsules ?s0 (H cr i))\<rparr>) ?s0))"
    from Done obtain s4 where ex: "capsule_exists (capsules ?s0 (H cr i))"
      and tr: "if price (capsules ?s0 (H cr i)) < v
         then call (msg_sender c) (v - price (capsules ?s0 (H cr i))) ?pre = (True, s4)
         else s4 = ?pre"
      and s': "s' = s4\<lparr>events := events s4 @
                     [CapsuleQueried (msg_sender c) i (price (capsules ?s0 (H cr i)))],
                  capsuleQueriedHistory := capsuleQueriedHistory s4 @
                    [CapsuleQueriedLog (msg_sender c) i (price (capsules ?s0 (H cr i)))
                       (block_timestamp c)]\<rparr>"
      by (rule queryCapsule_code_Done)
    have pre: "P ?pre" using QueryCapsule P0 ex by (rule wQ)
    have "P s4"
    proof (cases "price (capsules ?s0 (H cr i)) < v")
      case True
      with tr have "call (msg_sender c) (v - price (capsules ?s0 (H cr i))) ?pre = (True, s4)"
        by simp
      with pre show ?thesis by (rule call)
    next
      case False
      with tr have "s4 = ?pre" by simp
      with pre show ?thesis by simp
    qed
    from log [OF this, where ev = "events s4 @
          [CapsuleQueried (msg_sender c) i (price (capsules ?s0 (H cr i)))]" and hu = "unstakedFromCapsuleHistory s4"
        and hq = "capsuleQueriedHistory s4 @
           [CapsuleQueriedLog (msg_sender c) i (price (capsules ?s0 (H cr i)))
              (block_timestamp c)]" and hw = "earningsWithdrawnHistory s4"]
    have "P s'" by (simp add: s')
    then show ?thesis by (simp add: QueryCapsule dispatch_def transact_snd Done)
  qed
next
  case (WithdrawEarnings i)
  show ?thesis
  proof (cases "withdrawEarnings_code call H c i s")
    case (Reverted e d)
    then show ?thesis using P by (simp add: WithdrawEarnings dispatch_def transact_snd)
  next
    case (Done s')
    from Done obtain s3 where nz: "totalEarnings (earnings s (H (msg_sender c) i)) \<noteq> 0"
      and tr: "call (msg_sender c) (totalEarnings (earnings s (H (msg_sender c) i)))
           (set_capsule (H (msg_sender c) i)
              ((capsules s (H (msg_sender c) i))\<lparr>capsule_earnings := 0\<rparr>)
              (set_earnings (H (msg_sender c) i)
                 ((earnings s (H (msg_sender c) i))\<lparr>totalEarnings := 0\<rparr>) s)) = (True, s3)"
      and s': "s' = s3\<lparr>events := events s3 @
                    [EarningsWithdrawn (msg_sender c) (totalEarnings (earnings s (H (msg_sender c) i)))],
                  earningsWithdrawnHistory := earningsWithdrawnHistory s3 @
                    [EarningsWithdrawnLog (msg_sender c)
                       (totalEarnings (earnings s (H (msg_sender c) i))) (block_timestamp c)]\<rparr>"
      by (rule withdrawEarnings_code_Done)
    have "P s3" using wW [OF WithdrawEarnings P nz] tr by (rule call)
    from log [OF this, where ev = "events s3 @
          [EarningsWithdrawn (msg_sender c) (totalEarnings (earnings s (H (msg_sender c) i)))]" and hu = "unstakedFromCapsuleHistory s3"
        and hq = "capsuleQueriedHistory s3" and hw = "earningsWithdrawnHistory s3 @
                    [EarningsWithdrawnLog (msg_sender c)
                       (totalEarnings (earnings s (H (msg_sender c) i))) (block_timestamp c)]"]
    have "P s'" by (simp add: s')
    then show ?thesis by (simp add: WithdrawEarnings dispatch_def transact_snd Done)
  qed
qed (use plain in auto)

subsection \<open>Invariants of every run\<close>

lemma run_invariant:
  assumes bal: "\<And>s n p. P s \<Longrightarrow> P (s\<lparr>balance := n, payouts := p\<rparr>)"
    and log: "\<And>s ev hu hq hw. P s \<Longrightarrow>
        P (s\<lparr>events := ev, unstakedFromCapsuleHistory := hu, capsuleQueriedHistory := hq,
             earningsWithdrawnHistory := hw\<rparr>)"
    and plain: "\<And>call c x s. G (msg_sender c, x) \<Longrightarrow> P s \<Longrightarrow>
        (\<forall>i a. x \<noteq> Unstake i a) \<Longrightarrow> (\<forall>cr i v. x \<noteq> QueryCapsule cr i v) \<Longrightarrow>
        (\<forall>i. x \<noteq> WithdrawEarnings i) \<Longrightarrow> P (snd (dispatch call H c x s))"
    and wU: "\<And>(c :: ctx) i a st. G (msg_sender c, Unstake i a) \<Longrightarrow> P st \<Longrightarrow>
        capsule_exists (capsules st (H (msg_sender c) i)) \<Longrightarrow>
        P (set_capsule (H (msg_sender c) i)
              ((capsules st (H (msg_sender c) i))
                 \<lparr>totalStake := totalStake (capsules st (H (msg_sender c) i)) - a,
                  updatedAt := block_timestamp c\<rparr>) st)"
    and wQ: "\<And>(c :: ctx) cr i v st. G (msg_sender c, QueryCapsule cr i v) \<Longrightarrow> P st \<Longrightarrow>
        capsule_exists (capsules st (H cr i)) \<Longrightarrow>
        P (set_earnings (H cr i)
                  ((earnings st (H cr i))
                     \<lparr>totalEarnings := totalEarnings (earnings st (H cr i)) + price (capsules st (H cr i)),
                      queryCount := queryCount (earnings st (H cr i)) + 1,
                      lastUpdated := block_timestamp c\<rparr>)
                  (set_earnings (H cr i)
                    ((earnings st (H cr i))
                       \<lparr>totalEarnings := totalEarnings (earnings st (H cr i)) + price (capsules st (H cr i))\<rparr>)
                    (set_capsule (H cr i)
                      ((capsules st (H cr i))
                         \<lparr>capsule_earnings :=
                            capsule_earnings (capsules st (H cr i)) + price (capsules st (H cr i))\<rparr>) st)))"
    and wW: "\<And>(c :: ctx) i st. G (msg_sender c, WithdrawEarnings i) \<Longrightarrow> P st \<Longrightarrow>
        totalEarnings (earnings st (H (msg_sender c) i)) \<noteq> 0 \<Longrightarrow>
        P (set_capsule (H (msg_sender c) i)
              ((capsules st (H (msg_sender c) i))\<lparr>capsule_earnings := 0\<rparr>)
              (set_earnings (H (msg_sender c) i)
                 ((earnings st (H (msg_sender c) i))\<lparr>totalEarnings := 0\<rparr>) st))"
  shows "(\<forall>y \<in> set (nested_calls r). G y) \<longrightarrow> P st \<longrightarrow>
           call_value H t r to amt st = (b, st') \<longrightarrow> P st'"
    and "(\<forall>y \<in> set (calls_of (c, x)). G y) \<longrightarrow> P s \<longrightarrow> P (snd (exec H c x s))"
    and "(\<forall>y \<in> set (concat (map calls_of tr)). G y) \<longrightarrow> P s \<longrightarrow> P (run H s tr)"
proof -
  have step: "P (snd (dispatch call H c x s))"
    if G: "G (msg_sender c, x)" and P: "P s"
      and call: "\<And>to amt st b st'. P st \<Longrightarrow> call to amt st = (b, st') \<Longrightarrow> P st'"
    for call c x s
  proof (rule dispatch_preserves [where P = P, OF P call bal log])
    show "P (snd (dispatch call H c x s))"
      if "\<forall>i a. x \<noteq> Unstake i a" "\<forall>cr i v. x \<noteq> QueryCapsule cr i v" "\<forall>i. x \<noteq> WithdrawEarnings i"
      using G P that by (rule plain)
  next
    fix i a st
    assume h: "x = Unstake i a" "P st" "capsule_exists (capsules st (H (msg_sender c) i))"
    have "G (msg_sender c, Unstake i a)" using G h(1) by simp
    from wU [OF this h(2) h(3)] show "P (set_capsule (H (msg_sender c) i)
              ((capsules st (H (msg_sender c) i))
                 \<lparr>totalStake := totalStake (capsules st (H (msg_sender c) i)) - a,
                  updatedAt := block_timestamp c\<rparr>) st)"
      .
  next
    fix cr i v st
    assume h: "x = QueryCapsule cr i v" "P st" "capsule_exists (capsules st (H cr i))"
    have "G (msg_sender c, QueryCapsule cr i v)" using G h(1) by simp
    from wQ [OF this h(2) h(3)] show "P (set_earnings (H cr i)
                  ((earnings st (H cr i))
                     \<lparr>totalEarnings := totalEarnings (earnings st (H cr i)) + price (capsules st (H cr i)),
                      queryCount := queryCount (earnings st (H cr i)) + 1,
                      lastUpdated := block_timestamp c\<rparr>)
                  (set_earnings (H cr i)
                    ((earnings st (H cr i))
                       \<lparr>totalEarnings := totalEarnings (earnings st (H cr i)) + price (capsules st (H cr i))\<rparr>)
                    (set_capsule (H cr i)
                      ((capsules st (H cr i))
                         \<lparr>capsule_earnings :=
                            capsule_earnings (capsules st (H cr i)) + price (capsules st (H cr i))\<rparr>) st)))"
      .
  next
    fix i st
    assume h: "x = WithdrawEarnings i" "P st"
      "totalEarnings (earnings st (H (msg_sender c) i)) \<noteq> 0"
    have "G (msg_sender c, WithdrawEarnings i)" using G h(1) by simp
    from wW [OF this h(2) h(3)] show "P (set_capsule (H (msg_sender c) i)
              ((capsules st (H (msg_sender c) i))\<lparr>capsule_earnings := 0\<rparr>)
              (set_earnings (H (msg_sender c) i)
                 ((earnings st (H (msg_sender c) i))\<lparr>totalEarnings := 0\<rparr>) st))"
      .
  qed
  show "(\<forall>y \<in> set (nested_calls r). G y) \<longrightarrow> P st \<longrightarrow>
           call_value H t r to amt st = (b, st') \<longrightarrow> P st'"
    using call_value_preserves [where P = P and G = G, OF step bal] by blast
  show "(\<forall>y \<in> set (calls_of (c, x)). G y) \<longrightarrow> P s \<longrightarrow> P (snd (exec H c x s))"
    using exec_preserves [where P = P and G = G, OF step bal] by blast
  show "(\<forall>y \<in> set (concat (map calls_of tr)). G y) \<longrightarrow> P s \<longrightarrow> P (run H s tr)"
    using run_preserves [where P = P and G = G, OF step bal] by blast
qed

lemmas plain_unfold = dispatch_def plain_defs transact_def Let_def

lemma agents_kept:
  fixes H :: "address \<Rightarrow> string \<Rightarrow> 'k"
  assumes "agent_exists v"
  shows "agents s k = v \<longrightarrow> agents (snd (exec H c x s)) k = v"
    and "agents s k = v \<longrightarrow> agents (run H s tr) k = v"
proof -
  let ?P = "\<lambda>s :: 'k state. agents s k = v"
  have plain: "?P (snd (dispatch call H c x s))"
    if "?P s" "\<forall>i a. x \<noteq> Unstake i a" "\<forall>cr i v. x \<noteq> QueryCapsule cr i v"
      "\<forall>i. x \<noteq> WithdrawEarnings i" for call c x s
    using that assms
    by (cases x)
       (auto simp: plain_unfold transact_snd split: if_splits option.splits outcome.splits)
  note r = run_invariant [where P = ?P and G = "\<lambda>_. True" and H = H]
  show "agents s k = v \<longrightarrow> agents (snd (exec H c x s)) k = v"
    by (rule r(2) [simplified]) (simp_all add: plain, (auto simp: set_capsule_def set_earnings_def)?)
  show "agents s k = v \<longrightarrow> agents (run H s tr) k = v"
    by (rule r(3) [simplified]) (simp_all add: plain, (auto simp: set_capsule_def set_earnings_def)?)
qed

lemma capsule_kept:
  fixes H :: "address \<Rightarrow> string \<Rightarrow> 'k"
  shows "capsule_exists (capsules s k) \<longrightarrow> capsule_exists (capsules (snd (exec H c x s)) k)"
    and "capsule_exists (capsules s k) \<longrightarrow> capsule_exists (capsules (run H s tr) k)"
proof -
  let ?P = "\<lambda>s :: 'k state. capsule_exists (capsules s k)"
  have plain: "?P (snd (dispatch call H c x s))"
    if "?P s" "\<forall>i a. x \<noteq> Unstake i a" "\<forall>cr i v. x \<noteq> QueryCapsule cr i v"
      "\<forall>i. x \<noteq> WithdrawEarnings i" for call c x s
    using that
    by (cases x)
       (auto simp: plain_unfold transact_snd split: if_splits option.splits outcome.splits)
  note r = run_invariant [where P = ?P and G = "\<lambda>_. True" and H = H]
  show "capsule_exists (capsules s k) \<longrightarrow> capsule_exists (capsules (snd (exec H c x s)) k)"
    by (rule r(2) [simplified]) (simp_all add: plain, (auto simp: set_capsule_def set_earnings_def)?)
  show "capsule_exists (capsules s k) \<longrightarrow> capsule_exists (capsules (run H s tr) k)"
    by (rule r(3) [simplified]) (simp_all add: plain, (auto simp: set_capsule_def set_earnings_def)?)
qed



lemma keyed_in_init: "keyed_in H S init"
  by (simp add: keyed_in_def zero_defs)

lemma keyed_in_kept:
  fixes H :: "address \<Rightarrow> string \<Rightarrow> 'k"
  shows "(\<forall>y \<in> set (concat (map calls_of tr)). set (creates y) \<subseteq> S) \<longrightarrow>
           keyed_in H S s \<longrightarrow> keyed_in H S (run H s tr)"
proof -
  have plain: "keyed_in H S (snd (dispatch call H c x s))"
    if "set (creates (msg_sender c, x)) \<subseteq> S" "keyed_in H S s"
      "\<forall>i a. x \<noteq> Unstake i a" "\<forall>cr i v. x \<noteq> QueryCapsule cr i v"
      "\<forall>i. x \<noteq> WithdrawEarnings i" for call c x and s :: "'k state"
    using that unfolding keyed_in_def
    by (cases x)
       (auto simp: plain_unfold transact_snd split: if_splits option.splits outcome.splits)
  note r = run_invariant [where P = "keyed_in H S" and G = "\<lambda>y. set (creates y) \<subseteq> S" and H = H]
  show ?thesis
    by (rule r(3))
       (simp_all add: plain, (auto simp: keyed_in_def set_capsule_def set_earnings_def)?)
qed

lemma created_pairs_sub:
  "\<forall>y \<in> set (concat (map calls_of tr)). set (creates y) \<subseteq> created_pairs tr"
  by (auto simp: created_pairs_def)

lemma run_keyed_in: "keyed_in H (created_pairs tr) (run H init tr)"
  using keyed_in_kept [of tr "created_pairs tr" H init] created_pairs_sub keyed_in_init
  by blast



subsection \<open>Evaluation of the concrete run, and the platform\<close>

lemmas wrap_defs = registerAgent_def createCapsule_def stake_def unstake_def queryCapsule_def
  withdrawEarnings_def updateCapsulePrice_def

lemmas scenario_defs = caller_def refusing_def reentering_def created_trace_def created_def
  staked_def queried_def packed_def recipient_accepts_def
  closed_defs code_defs plain_defs dispatch_def transact_def checked_add_def checked_sub_def
  const_defs zero_defs Let_def

lemma created_capsule:
  "capsules created (packed 1 ''cap1'') =
     \<lparr>creator = 1, capsuleId = ''cap1'', capsule_name = ''Capsule One'', description = ''notes'',
      category = ''coding'', price = 50000000000000000, totalStake = 0, createdAt = 1000,
      updatedAt = 1000, capsule_earnings = 0, capsule_exists = True\<rparr>"
  by (simp add: scenario_defs)

lemma staked_capsule:
  "capsules staked (packed 1 ''cap1'') =
     \<lparr>creator = 1, capsuleId = ''cap1'', capsule_name = ''Capsule One'', description = ''notes'',
      category = ''coding'', price = 50000000000000000, totalStake = 100000000000000000,
      createdAt = 1000, updatedAt = 1000, capsule_earnings = 0, capsule_exists = True\<rparr>"
  by (simp add: scenario_defs)

lemma staked_stake:
  "stakes staked (packed 1 ''cap1'') 1 =
     \<lparr>stakedAt = 1000, lockUntil = 605800, stake_exists = True\<rparr>"
  by (simp add: scenario_defs)

lemma staked_rest:
  "earnings staked (packed 1 ''cap1'') = zero_Earnings"
  "balance staked = 100000000000000000"
  "payouts staked = []"
  by (simp_all add: scenario_defs)

lemma queried_vals:
  "earnings queried (packed 1 ''cap1'') =
     \<lparr>totalEarnings = 50000000000000000, queryCount = 1, lastUpdated = 2000\<rparr>"
  "balance queried = 150000000000000000"
  "payouts queried = [(2, 50000000000000000)]"
  "capsule_earnings (capsules queried (packed 1 ''cap1'')) = 50000000000000000"
  by (simp_all add: scenario_defs)

lemma checked_add_Some: "checked_add a b = Some x \<Longrightarrow> unat x = unat a + unat b"
  by (auto simp: checked_add_def unat_word_ariths split: if_splits)

lemma checked_add_lock:
  "checked_add t LOCK_PERIOD_SECONDS = Some x \<Longrightarrow> unat x = unat t + 604800"
  by (drule checked_add_Some) (simp add: LOCK_PERIOD_SECONDS_def)

lemma transact_Failure: "transact v body s = (Failure e, s') \<Longrightarrow> s' = s"
  by (auto simp: transact_def split: outcome.splits)

lemma transact_Success:
  "transact v body s = (Success, s') \<Longrightarrow> body (s\<lparr>balance := balance s + v\<rparr>) = Done s'"
  by (auto simp: transact_def split: outcome.splits)

lemma transact0:
  "transact 0 body s =
     (case body s of Reverted e d \<Rightarrow> (Failure e, s) | Done s' \<Rightarrow> (Success, s'))"
  by (simp add: transact_def)

lemma exec_Failure: "exec H c x s = (Failure e, s') \<Longrightarrow> s' = s"
  by (cases x) (auto simp: wrap_defs dest: transact_Failure)

lemma call_value_quiet:
  "reaction c = Reaction [] True \<Longrightarrow>
     call_value H t (reaction c) to amount s =
       (if unat amount \<le> balance s
        then (True, s\<lparr>balance := balance s - unat amount, payouts := payouts s @ [(to, amount)]\<rparr>)
        else (False, s))"
  by simp

lemma call_value_accepted:
  "unat amount \<le> balance s \<Longrightarrow> recipient_accepts c \<Longrightarrow>
     \<exists>s'. call_value H t (reaction c) to amount s = (True, s')"
  by (cases "reaction c") (auto simp: recipient_accepts_def)

subsection \<open>What each function does\<close>








lemma unstake_transfer_fails:
  assumes "capsule_exists (capsules s (H (msg_sender c) i))"
    and "stake_exists (stakes s (H (msg_sender c) i) (msg_sender c))"
    and "amount \<noteq> 0" and "amount \<le> totalStake (capsules s (H (msg_sender c) i))"
    and "lockUntil (stakes s (H (msg_sender c) i) (msg_sender c)) \<le> block_timestamp c"
    and "\<not> (unat amount \<le> balance s \<and> recipient_accepts c)"
  shows "unstake_body H c i amount s =
           Reverted TransferFailed (set_capsule (H (msg_sender c) i)
             ((capsules s (H (msg_sender c) i))
                \<lparr>totalStake := totalStake (capsules s (H (msg_sender c) i)) - amount,
                 updatedAt := block_timestamp c\<rparr>) s)"
proof -
  let ?pre = "set_capsule (H (msg_sender c) i)
             ((capsules s (H (msg_sender c) i))
                \<lparr>totalStake := totalStake (capsules s (H (msg_sender c) i)) - amount,
                 updatedAt := block_timestamp c\<rparr>) s"
  have "\<not> (unat amount \<le> balance ?pre \<and> recipient_accepts c)"
    using assms(6) by (simp add: set_capsule_def)
  then have "call_value H (block_timestamp c) (reaction c) (msg_sender c) amount ?pre = (False, ?pre)"
    by (rule call_value_fails)
  then show ?thesis
    using assms(1-5)
    by (simp add: unstake_body_def unstake_code_def checked_sub_def Let_def not_less)
qed

lemma unstake_succeeds:
  assumes "capsule_exists (capsules s (H (msg_sender c) i))"
    and "stake_exists (stakes s (H (msg_sender c) i) (msg_sender c))"
    and "amount \<noteq> 0" and "amount \<le> totalStake (capsules s (H (msg_sender c) i))"
    and "lockUntil (stakes s (H (msg_sender c) i) (msg_sender c)) \<le> block_timestamp c"
    and "unat amount \<le> balance s" and "reaction c = Reaction [] True"
  shows "unstake_body H c i amount s =
           Done (s\<lparr>capsules := (capsules s)(H (msg_sender c) i :=
                     (capsules s (H (msg_sender c) i))
                       \<lparr>totalStake := totalStake (capsules s (H (msg_sender c) i)) - amount,
                        updatedAt := block_timestamp c\<rparr>),
                   balance := balance s - unat amount,
                   payouts := payouts s @ [(msg_sender c, amount)],
                   events := events s @ [UnstakedFromCapsule (msg_sender c) i amount],
                   unstakedFromCapsuleHistory := unstakedFromCapsuleHistory s @
                     [UnstakedFromCapsuleLog (msg_sender c) i amount (block_timestamp c)]\<rparr>)"
  using assms
  by (simp add: unstake_body_def unstake_code_def set_capsule_def checked_sub_def Let_def not_less)

lemma unstake_accepted:
  assumes "capsule_exists (capsules s (H (msg_sender c) i))"
    and "stake_exists (stakes s (H (msg_sender c) i) (msg_sender c))"
    and "amount \<noteq> 0" and "amount \<le> totalStake (capsules s (H (msg_sender c) i))"
    and "lockUntil (stakes s (H (msg_sender c) i) (msg_sender c)) \<le> block_timestamp c"
    and "unat amount \<le> balance s" and "recipient_accepts c"
  shows "\<exists>s'. unstake_body H c i amount s = Done s'"
proof -
  let ?pre = "set_capsule (H (msg_sender c) i)
             ((capsules s (H (msg_sender c) i))
                \<lparr>totalStake := totalStake (capsules s (H (msg_sender c) i)) - amount,
                 updatedAt := block_timestamp c\<rparr>) s"
  have "unat amount \<le> balance ?pre"
    using assms(6) by (simp add: set_capsule_def)
  from call_value_accepted [OF this assms(7)]
  obtain s2 where "call_value H (block_timestamp c) (reaction c) (msg_sender c) amount ?pre
      = (True, s2)"
    by blast
  then show ?thesis
    using assms(1-5)
    by (simp add: unstake_body_def unstake_code_def checked_sub_def Let_def not_less)
qed

lemma unstake_locked:
  assumes "capsule_exists (capsules s (H (msg_sender c) i))"
    and "stake_exists (stakes s (H (msg_sender c) i) (msg_sender c))"
    and "amount \<noteq> 0" and "amount \<le> totalStake (capsules s (H (msg_sender c) i))"
    and "block_timestamp c < lockUntil (stakes s (H (msg_sender c) i) (msg_sender c))"
  shows "unstake_body H c i amount s = Reverted StakeLocked s"
  using assms
  by (auto simp: unstake_body_def unstake_code_def Let_def)

lemma stake_body_lock:
  "stake_body H c i v s = Done s' \<Longrightarrow>
     unat (lockUntil (stakes s' (H (msg_sender c) i) (msg_sender c)))
       = unat (block_timestamp c) + 604800
     \<and> stake_exists (stakes s' (H (msg_sender c) i) (msg_sender c))"
  by (auto simp: stake_body_def stake_finish_def set_capsule_def set_stake_def Let_def
      dest: checked_add_lock split: if_splits option.splits)

lemma stake_body_stakedAt:
  "stake_body H c i v s = Done s' \<Longrightarrow>
     stakedAt (stakes s' (H (msg_sender c) i) (msg_sender c)) =
       (if stake_exists (stakes s (H (msg_sender c) i) (msg_sender c))
        then stakedAt (stakes s (H (msg_sender c) i) (msg_sender c))
        else block_timestamp c)"
  by (auto simp: stake_body_def stake_finish_def set_capsule_def set_stake_def Let_def
      split: if_splits option.splits)

lemma stake_Success_body:
  "stake H c i v s = (Success, s') \<Longrightarrow>
     stake_body H c i v (s\<lparr>balance := balance s + unat v\<rparr>) = Done s'"
  by (simp add: stake_def transact_Success)

lemma stake_body_effect:
  "stake_body H c i v s = Done s' \<Longrightarrow>
     MIN_STAKE_AMOUNT \<le> v \<and> v \<le> MAX_STAKE_AMOUNT \<and>
     capsule_exists (capsules s (H (msg_sender c) i)) \<and>
     creator (capsules s (H (msg_sender c) i)) = msg_sender c \<and>
     unat (totalStake (capsules s' (H (msg_sender c) i))) =
       unat (totalStake (capsules s (H (msg_sender c) i))) + unat v \<and>
     balance s' = balance s"
  by (auto simp: stake_body_def stake_finish_def set_capsule_def set_stake_def Let_def not_less
      dest: checked_add_Some split: if_splits option.splits)

lemma stake_succeeds:
  assumes "MIN_STAKE_AMOUNT \<le> v" and "v \<le> MAX_STAKE_AMOUNT"
    and "capsule_exists (capsules s (H (msg_sender c) i))"
    and "creator (capsules s (H (msg_sender c) i)) = msg_sender c"
    and "unat (totalStake (capsules s (H (msg_sender c) i))) + unat v < 2 ^ 256"
    and "unat (block_timestamp c) + 604800 < 2 ^ 256"
  shows "fst (stake H c i v s) = Success"
  using assms
  by (simp add: stake_def transact_def stake_body_def stake_finish_def checked_add_def
      LOCK_PERIOD_SECONDS_def Let_def not_less)

lemma stake_no_capsule:
  "\<not> capsule_exists (capsules s (H (msg_sender c) i)) \<Longrightarrow>
   stake H c i v s =
     (Failure (if v < MIN_STAKE_AMOUNT then InsufficientPayment
               else if MAX_STAKE_AMOUNT < v then StakeTooHigh else CapsuleNotFound), s)"
  by (simp add: stake_def transact_def stake_body_def Let_def)

lemma updateCapsulePrice_no_capsule:
  "\<not> capsule_exists (capsules s (H (msg_sender c) i)) \<Longrightarrow>
   updateCapsulePrice H c i np s =
     (Failure (if np < MIN_PRICE_PER_QUERY then InvalidPrice
               else if MAX_PRICE_PER_QUERY < np then PriceTooHigh else CapsuleNotFound), s)"
  by (simp add: updateCapsulePrice_def transact_def updateCapsulePrice_body_def Let_def)

lemma updateCapsulePrice_Success_own:
  "fst (updateCapsulePrice H c i np s) = Success \<Longrightarrow>
     capsule_exists (capsules s (H (msg_sender c) i)) \<and>
     creator (capsules s (H (msg_sender c) i)) = msg_sender c"
  by (auto simp: updateCapsulePrice_def transact_def updateCapsulePrice_body_def Let_def
      split: if_splits outcome.splits)

lemma stake_elsewhere:
  "k \<noteq> H (msg_sender c) i \<Longrightarrow>
     capsules (snd (stake H c i v s)) k = capsules s k \<and> stakes (snd (stake H c i v s)) k = stakes s k"
  by (auto simp: stake_def transact_def stake_body_def stake_finish_def set_capsule_def
      set_stake_def Let_def split: if_splits option.splits outcome.splits)

lemma updateCapsulePrice_elsewhere:
  "k \<noteq> H (msg_sender c) i \<Longrightarrow> capsules (snd (updateCapsulePrice H c i np s)) k = capsules s k"
  by (auto simp: updateCapsulePrice_def transact_def updateCapsulePrice_body_def set_capsule_def
      Let_def split: if_splits outcome.splits)

lemma stake_not_Unauthorized:
  "(capsule_exists (capsules s (H (msg_sender c) i)) \<longrightarrow>
      creator (capsules s (H (msg_sender c) i)) = msg_sender c) \<Longrightarrow>
   fst (stake H c i v s) \<noteq> Failure Unauthorized"
  by (auto simp: stake_def transact_def stake_body_def stake_finish_def set_capsule_def
      set_stake_def Let_def split: if_splits option.splits outcome.splits)

lemma updateCapsulePrice_not_Unauthorized:
  "(capsule_exists (capsules s (H (msg_sender c) i)) \<longrightarrow>
      creator (capsules s (H (msg_sender c) i)) = msg_sender c) \<Longrightarrow>
   fst (updateCapsulePrice H c i np s) \<noteq> Failure Unauthorized"
  by (auto simp: updateCapsulePrice_def transact_def updateCapsulePrice_body_def set_capsule_def
      Let_def split: if_splits outcome.splits)

lemma registerAgent_Success:
  "registerAgent H c a n d pf s = (Success, s') \<Longrightarrow> agent_exists (agents s' (H (msg_sender c) a))"
  by (auto simp: registerAgent_def transact0 registerAgent_body_def Let_def
      split: if_splits outcome.splits)

lemma createCapsule_Success:
  "createCapsule H c a n d g pr s = (Success, s') \<Longrightarrow>
     capsule_exists (capsules s' (H (msg_sender c) a))"
  by (auto simp: createCapsule_def transact0 createCapsule_body_def Let_def
      split: if_splits outcome.splits)

lemma registerAgent_duplicate:
  "agent_exists (agents s (H (msg_sender c) a)) \<Longrightarrow>
     \<exists>e. registerAgent H c a n d pf s = (Failure e, s)"
  by (simp add: registerAgent_def transact0 registerAgent_body_def Let_def)

lemma createCapsule_duplicate:
  "capsule_exists (capsules s (H (msg_sender c) a)) \<Longrightarrow>
     \<exists>e. createCapsule H c a n d g pr s = (Failure e, s)"
  by (simp add: createCapsule_def transact0 createCapsule_body_def Let_def)

lemma collision_free_onD:
  "collision_free_on H S \<Longrightarrow> (a, i) \<in> S \<Longrightarrow> (b, j) \<in> S \<Longrightarrow> H a i = H b j \<Longrightarrow> a = b \<and> i = j"
  unfolding collision_free_on_def by blast

lemma keyed_in_creator:
  assumes "collision_free_on H S'" and "keyed_in H S s" and "S \<subseteq> S'" and "(p, i) \<in> S'"
    and "capsule_exists (capsules s (H p i))"
  shows "creator (capsules s (H p i)) = p"
proof -
  have eq: "H p i = H (creator (capsules s (H p i))) (capsuleId (capsules s (H p i)))"
    and mem: "(creator (capsules s (H p i)), capsuleId (capsules s (H p i))) \<in> S'"
    using assms(2,3,5) by (auto simp: keyed_in_def)
  from collision_free_onD [OF assms(1,4) mem eq] show ?thesis
    by simp
qed

lemma keyed_in_owner:
  assumes "collision_free_on H S'" and "keyed_in H S s" and "S \<subseteq> S'" and "(p, i) \<in> S'"
    and "agent_exists (agents s (H p i))"
  shows "owner (agents s (H p i)) = p"
proof -
  have eq: "H p i = H (owner (agents s (H p i))) (agentId (agents s (H p i)))"
    and mem: "(owner (agents s (H p i)), agentId (agents s (H p i))) \<in> S'"
    using assms(2,3,5) by (auto simp: keyed_in_def)
  from collision_free_onD [OF assms(1,4) mem eq] show ?thesis
    by simp
qed

lemma packed_collision_free_on: "collision_free_on packed S"
  by (simp add: collision_free_on_def packed_def)


lemma lockstep_credit: "lockstep (s\<lparr>balance := n\<rparr>) = lockstep s"
  by (simp add: lockstep_def)



section \<open>The claims\<close>

subsection \<open>C1: settlement of a paid query\<close>

text \<open>
  Claim C1, as amended. For a capsule that exists at the key of \<open>(cr, i)\<close> with price
  \<open>P\<close>, and a call of \<open>queryCapsule\<close> with payment \<open>V\<close>: if \<open>V \<ge> P\<close>, the three
  checked additions do not overflow, and, when \<open>V > P\<close>, the caller's account accepts
  the refund and makes no call back into the contract while it receives it, then the
  call succeeds, \<open>totalEarnings\<close> and the capsule's \<open>earnings\<close> each grow by
  exactly \<open>P\<close>, \<open>queryCount\<close> by exactly one, and the only transfer made is the
  refund of exactly \<open>V - P\<close> to the caller (none when \<open>V = P\<close>), so the contract
  keeps exactly \<open>P\<close>. If \<open>V > P\<close> and the caller's account does not accept the
  refund, the call fails and the storage is as before. If \<open>V < P\<close>, the call fails
  with \<open>InsufficientPayment\<close> and the storage is as before.
\<close>

theorem query_settlement:
  assumes "k = H cr i" and "capsule_exists (capsules s k)" and "P = price (capsules s k)"
  shows "(P \<le> V \<and>
          unat (capsule_earnings (capsules s k)) + unat P < 2 ^ 256 \<and>
          unat (totalEarnings (earnings s k)) + unat P < 2 ^ 256 \<and>
          unat (queryCount (earnings s k)) + 1 < 2 ^ 256 \<and>
          (P < V \<longrightarrow> reaction c = Reaction [] True) \<longrightarrow>
            (\<exists>s'. queryCapsule H c cr i V s = (Success, s') \<and>
               unat (totalEarnings (earnings s' k)) = unat (totalEarnings (earnings s k)) + unat P \<and>
               unat (capsule_earnings (capsules s' k)) =
                 unat (capsule_earnings (capsules s k)) + unat P \<and>
               unat (queryCount (earnings s' k)) = unat (queryCount (earnings s k)) + 1 \<and>
               payouts s' = payouts s @ (if P < V then [(msg_sender c, V - P)] else []) \<and>
               unat (V - P) = unat V - unat P \<and>
               balance s' = balance s + unat P))
       \<and> (P < V \<and> \<not> recipient_accepts c \<longrightarrow>
            (\<exists>e. queryCapsule H c cr i V s = (Failure e, s)))
       \<and> (V < P \<longrightarrow> queryCapsule H c cr i V s = (Failure InsufficientPayment, s))"
proof (intro conjI impI)
  assume a: "P \<le> V \<and>
          unat (capsule_earnings (capsules s k)) + unat P < 2 ^ 256 \<and>
          unat (totalEarnings (earnings s k)) + unat P < 2 ^ 256 \<and>
          unat (queryCount (earnings s k)) + 1 < 2 ^ 256 \<and>
          (P < V \<longrightarrow> reaction c = Reaction [] True)"
  then have le: "unat P \<le> unat V" by (simp add: word_le_nat_alt)
  have sub: "unat (V - P) = unat V - unat P" using a by (simp add: unat_sub)
  have nz: "V - P \<noteq> 0 \<longleftrightarrow> P < V" using a by auto
  have u1: "unat (capsule_earnings (capsules s k) + P) =
              unat (capsule_earnings (capsules s k)) + unat P"
    using a by (simp add: unat_word_ariths)
  have u2: "unat (totalEarnings (earnings s k) + P) = unat (totalEarnings (earnings s k)) + unat P"
    using a by (simp add: unat_word_ariths)
  have u3: "unat (queryCount (earnings s k) + 1) = unat (queryCount (earnings s k)) + 1"
    using a by (simp add: unat_word_ariths)
  show "\<exists>s'. queryCapsule H c cr i V s = (Success, s') \<and>
               unat (totalEarnings (earnings s' k)) = unat (totalEarnings (earnings s k)) + unat P \<and>
               unat (capsule_earnings (capsules s' k)) =
                 unat (capsule_earnings (capsules s k)) + unat P \<and>
               unat (queryCount (earnings s' k)) = unat (queryCount (earnings s k)) + 1 \<and>
               payouts s' = payouts s @ (if P < V then [(msg_sender c, V - P)] else []) \<and>
               unat (V - P) = unat V - unat P \<and>
               balance s' = balance s + unat P"
    using assms a le sub nz u1 u2 u3
    by (auto simp: queryCapsule_def transact_def queryCapsule_body_def queryCapsule_code_def
        queryCapsule_log_def checked_add_def checked_sub_def set_capsule_def set_earnings_def
        Let_def word_gt_0)
next
  assume r: "P < V \<and> \<not> recipient_accepts c"
  then have nz: "V - P \<noteq> 0" and le: "P \<le> V" by auto
  have "fst (queryCapsule H c cr i V s) \<noteq> Success"
    using assms r nz le
    by (auto simp: queryCapsule_def transact_def queryCapsule_body_def queryCapsule_code_def
        queryCapsule_log_def checked_sub_def call_value_fails Let_def word_gt_0
        split: option.splits)
  then show "\<exists>e. queryCapsule H c cr i V s = (Failure e, s)"
    by (cases "queryCapsule H c cr i V s"; cases "fst (queryCapsule H c cr i V s)")
       (auto simp: queryCapsule_def dest: transact_Failure)
next
  assume "V < P"
  then show "queryCapsule H c cr i V s = (Failure InsufficientPayment, s)"
    using assms
    by (simp add: queryCapsule_def transact_def queryCapsule_body_def queryCapsule_code_def Let_def)
qed

text \<open>
  Witness for C1: scenario 5. B pays 0.1 units for a capsule priced 0.05: earnings become
  0.05, the query count 1, and B is refunded 0.05; a payment of 0.01 is insufficient.
\<close>

theorem query_settlement_witness:
  "capsule_exists (capsules staked (packed 1 ''cap1'')) \<and>
   price (capsules staked (packed 1 ''cap1'')) = 50000000000000000 \<and>
   queryCapsule packed (caller 2 2000) 1 ''cap1'' 100000000000000000 staked = (Success, queried) \<and>
   totalEarnings (earnings queried (packed 1 ''cap1'')) = 50000000000000000 \<and>
   capsule_earnings (capsules queried (packed 1 ''cap1'')) = 50000000000000000 \<and>
   queryCount (earnings queried (packed 1 ''cap1'')) = 1 \<and>
   payouts queried = [(2, 50000000000000000)] \<and>
   queryCapsule packed (caller 2 2000) 1 ''cap1'' 10000000000000000 staked
     = (Failure InsufficientPayment, staked)"
proof -
  have ex: "capsule_exists (capsules staked (packed 1 ''cap1''))"
    and pr: "50000000000000000 = price (capsules staked (packed 1 ''cap1''))"
    by (simp_all add: staked_capsule)
  have pre: "(50000000000000000 :: uint256) \<le> 100000000000000000 \<and>
          unat (capsule_earnings (capsules staked (packed 1 ''cap1'')))
            + unat (50000000000000000 :: uint256) < 2 ^ 256 \<and>
          unat (totalEarnings (earnings staked (packed 1 ''cap1'')))
            + unat (50000000000000000 :: uint256) < 2 ^ 256 \<and>
          unat (queryCount (earnings staked (packed 1 ''cap1''))) + 1 < 2 ^ 256 \<and>
          ((50000000000000000 :: uint256) < 100000000000000000 \<longrightarrow>
             reaction (caller 2 2000) = Reaction [] True)"
    by (simp add: staked_capsule staked_rest zero_Earnings_def caller_def)
  have key: "packed 1 ''cap1'' = packed 1 ''cap1''" by (rule refl)
  note q = query_settlement [where H = packed and c = "caller 2 2000" and s = staked, OF key ex pr]
  have "\<exists>s'. queryCapsule packed (caller 2 2000) 1 ''cap1'' 100000000000000000 staked = (Success, s')"
    using q [where V = 100000000000000000] pre by blast
  then have ok: "queryCapsule packed (caller 2 2000) 1 ''cap1'' 100000000000000000 staked
      = (Success, queried)"
    by (auto simp: queried_def)
  have low: "queryCapsule packed (caller 2 2000) 1 ''cap1'' 10000000000000000 staked
     = (Failure InsufficientPayment, staked)"
    using q [where V = 10000000000000000] by simp
  show ?thesis
    using ex pr ok low by (simp add: queried_vals)
qed

text \<open>
  Counterexamples to C1 as stated: the capsule exists and \<open>V \<ge> P\<close>. A caller whose
  account does not accept the refund of the excess makes the call fail with
  \<open>TransferFailed\<close>. A caller whose account accepts the refund and, while it
  receives it, queries the capsule once more at the exact price sees the call succeed
  with \<open>totalEarnings\<close> higher by \<open>2P\<close> and \<open>queryCount\<close> by two when it
  returns.
\<close>

theorem query_refund_refused_or_reentered:
  "capsule_exists (capsules staked (packed 1 ''cap1'')) \<and>
   price (capsules staked (packed 1 ''cap1'')) = 50000000000000000 \<and>
   fst (queryCapsule packed (refusing 2 2000) 1 ''cap1'' 100000000000000000 staked)
     = Failure TransferFailed \<and>
   recipient_accepts (reentering 2 2000 (QueryCapsule 1 ''cap1'' 50000000000000000)) \<and>
   fst (queryCapsule packed (reentering 2 2000 (QueryCapsule 1 ''cap1'' 50000000000000000))
          1 ''cap1'' 100000000000000000 staked) = Success \<and>
   totalEarnings (earnings
      (snd (queryCapsule packed (reentering 2 2000 (QueryCapsule 1 ''cap1'' 50000000000000000))
              1 ''cap1'' 100000000000000000 staked)) (packed 1 ''cap1'')) = 100000000000000000 \<and>
   queryCount (earnings
      (snd (queryCapsule packed (reentering 2 2000 (QueryCapsule 1 ''cap1'' 50000000000000000))
              1 ''cap1'' 100000000000000000 staked)) (packed 1 ''cap1'')) = 2"
  by (simp add: scenario_defs)

subsection \<open>C2: withdrawal pays once\<close>




subsection \<open>C3: a failing operation changes nothing\<close>

text \<open>
  Claim C3. Whichever of the seven operations is called, in whichever state: if it
  fails, the state after the call is the state before it, with every map, list,
  history log and emitted event. In particular for \<open>unstake\<close>: when the transfer fails,
  the body had already lowered \<open>totalStake\<close> by the amount and set \<open>updatedAt\<close>
  when it reverted, and the call still returns the state from before.
\<close>

theorem failure_leaves_state:
  assumes "k = H (msg_sender c) i"
  shows "(exec H c' x s = (Failure e, s') \<longrightarrow> s' = s)
       \<and> (capsule_exists (capsules s k) \<and> stake_exists (stakes s k (msg_sender c)) \<and>
          0 < amount \<and> amount \<le> totalStake (capsules s k) \<and>
          lockUntil (stakes s k (msg_sender c)) \<le> block_timestamp c \<and>
          \<not> (unat amount \<le> balance s \<and> recipient_accepts c) \<longrightarrow>
            (\<exists>d. unstake_body H c i amount s = Reverted TransferFailed d \<and>
                 unat (totalStake (capsules d k)) + unat amount = unat (totalStake (capsules s k)) \<and>
                 updatedAt (capsules d k) = block_timestamp c) \<and>
            exec H c (Unstake i amount) s = (Failure TransferFailed, s))"
proof -
  have part1: "s' = s" if "exec H c' x s = (Failure e, s')"
    using that by (rule exec_Failure)
  have part2: "(\<exists>d. unstake_body H c i amount s = Reverted TransferFailed d \<and>
                 unat (totalStake (capsules d k)) + unat amount = unat (totalStake (capsules s k)) \<and>
                 updatedAt (capsules d k) = block_timestamp c) \<and>
            exec H c (Unstake i amount) s = (Failure TransferFailed, s)"
    if a: "capsule_exists (capsules s k) \<and> stake_exists (stakes s k (msg_sender c)) \<and>
          0 < amount \<and> amount \<le> totalStake (capsules s k) \<and>
          lockUntil (stakes s k (msg_sender c)) \<le> block_timestamp c \<and>
          \<not> (unat amount \<le> balance s \<and> recipient_accepts c)"
  proof -
    have le: "unat amount \<le> unat (totalStake (capsules s k))"
      using a by (simp add: word_le_nat_alt)
    have sub: "unat (totalStake (capsules s k) - amount) + unat amount = unat (totalStake (capsules s k))"
      using a le by (simp add: unat_sub)
    have body: "unstake_body H c i amount s =
           Reverted TransferFailed (set_capsule k
             ((capsules s k)\<lparr>totalStake := totalStake (capsules s k) - amount,
                 updatedAt := block_timestamp c\<rparr>) s)"
      using a assms unstake_transfer_fails [of s H c i amount] by (simp add: word_gt_0)
    show ?thesis
      using body sub by (simp add: unstake_def transact0 set_capsule_def)
  qed
  show ?thesis
    using part1 part2 by blast
qed

text \<open>
  Witness for C3: A unstakes 0.01 units after the lock has expired but refuses the
  transfer. The body reverts with \<open>totalStake\<close> already lowered; the call leaves the
  state untouched.
\<close>

theorem failure_leaves_state_witness:
  "exec packed (refusing 1 605800) (Unstake ''cap1'' 10000000000000000) staked
     = (Failure TransferFailed, staked) \<and>
   (\<exists>d. unstake_body packed (refusing 1 605800) ''cap1'' 10000000000000000 staked
          = Reverted TransferFailed d \<and>
        unat (totalStake (capsules d (packed 1 ''cap1''))) + 10000000000000000
          = unat (totalStake (capsules staked (packed 1 ''cap1''))))"
proof -
  have k: "packed 1 ''cap1'' = packed (msg_sender (refusing 1 605800)) ''cap1''"
    by (simp add: refusing_def)
  have pre: "capsule_exists (capsules staked (packed 1 ''cap1'')) \<and>
          stake_exists (stakes staked (packed 1 ''cap1'') (msg_sender (refusing 1 605800))) \<and>
          0 < (10000000000000000 :: uint256) \<and>
          10000000000000000 \<le> totalStake (capsules staked (packed 1 ''cap1'')) \<and>
          lockUntil (stakes staked (packed 1 ''cap1'') (msg_sender (refusing 1 605800)))
            \<le> block_timestamp (refusing 1 605800) \<and>
          \<not> (unat (10000000000000000 :: uint256) \<le> balance staked \<and>
             recipient_accepts (refusing 1 605800))"
    by (simp add: staked_capsule staked_stake refusing_def recipient_accepts_def)
  note w = failure_leaves_state [where H = packed and s = staked, OF k,
      THEN conjunct2, THEN mp, OF pre]
  show ?thesis
    using w by auto
qed

subsection \<open>C4: staking under another creator's capsule id\<close>

text \<open>
  Claim C4, as amended. In a state reached by any sequence of calls, with a key
  function that is collision-free on the pairs created in that sequence and the
  caller's own pair: let a capsule exist whose creator is not the caller, and
  let the caller call \<open>stake\<close> with that capsule's id. The key the call looks up is
  not that capsule's key; the call never fails with \<open>Unauthorized\<close> and never
  changes that capsule or its stake records. When the caller has no capsule of that
  id, the call fails and changes nothing: with \<open>InsufficientPayment\<close> for an amount
  below \<open>MIN_STAKE_AMOUNT\<close>, with \<open>StakeTooHigh\<close> for one above
  \<open>MAX_STAKE_AMOUNT\<close>, and with \<open>CapsuleNotFound\<close> otherwise. When the caller
  has a capsule of that id, the amount is within the bounds, and neither
  \<open>totalStake + amount\<close> nor \<open>block.timestamp + 604800\<close> overflows, the call
  succeeds. Whenever the call succeeds, the deposit is on the caller's own capsule:
  that capsule exists with the caller as creator, its \<open>totalStake\<close> has grown by
  exactly the amount, the caller's stake record on it exists, and the contract's
  balance has grown by the amount.
\<close>

theorem stake_only_own_capsule:
  assumes "collision_free_on H (insert (msg_sender c, i) (created_pairs tr))"
    and "s = run H init tr"
    and "capsule_exists (capsules s k)" and "creator (capsules s k) \<noteq> msg_sender c"
    and "i = capsuleId (capsules s k)"
    and "stake H c i v s = (r, s')"
  shows "r \<noteq> Failure Unauthorized
       \<and> capsules s' k = capsules s k \<and> stakes s' k = stakes s k
       \<and> H (msg_sender c) i \<noteq> k
       \<and> (\<not> capsule_exists (capsules s (H (msg_sender c) i)) \<longrightarrow>
            r = Failure (if v < MIN_STAKE_AMOUNT then InsufficientPayment
                         else if MAX_STAKE_AMOUNT < v then StakeTooHigh else CapsuleNotFound) \<and>
            s' = s)
       \<and> (capsule_exists (capsules s (H (msg_sender c) i)) \<and>
          MIN_STAKE_AMOUNT \<le> v \<and> v \<le> MAX_STAKE_AMOUNT \<and>
          unat (totalStake (capsules s (H (msg_sender c) i))) + unat v < 2 ^ 256 \<and>
          unat (block_timestamp c) + 604800 < 2 ^ 256 \<longrightarrow> r = Success)
       \<and> (r = Success \<longrightarrow>
            MIN_STAKE_AMOUNT \<le> v \<and> v \<le> MAX_STAKE_AMOUNT \<and>
            capsule_exists (capsules s (H (msg_sender c) i)) \<and>
            creator (capsules s (H (msg_sender c) i)) = msg_sender c \<and>
            unat (totalStake (capsules s' (H (msg_sender c) i))) =
              unat (totalStake (capsules s (H (msg_sender c) i))) + unat v \<and>
            stake_exists (stakes s' (H (msg_sender c) i) (msg_sender c)) \<and>
            balance s' = balance s + unat v)"
proof -
  let ?S = "insert (msg_sender c, i) (created_pairs tr)"
  have inv: "keyed_in H (created_pairs tr) s"
    unfolding assms(2) by (rule run_keyed_in)
  have sub: "created_pairs tr \<subseteq> ?S" by auto
  have k: "k = H (creator (capsules s k)) i" and mem: "(creator (capsules s k), i) \<in> ?S"
    using inv assms(3,5) by (auto simp: keyed_in_def)
  have ne: "k \<noteq> H (msg_sender c) i"
  proof
    assume "k = H (msg_sender c) i"
    then have "H (creator (capsules s k)) i = H (msg_sender c) i"
      using k by simp
    from collision_free_onD [OF assms(1) mem _ this] show False
      using assms(4) by simp
  qed
  have own: "capsule_exists (capsules s (H (msg_sender c) i)) \<longrightarrow>
      creator (capsules s (H (msg_sender c) i)) = msg_sender c"
    using keyed_in_creator [OF assms(1) inv sub, of "msg_sender c" i] by simp
  have r: "r = fst (stake H c i v s)" and s': "s' = snd (stake H c i v s)"
    using assms(6) by simp_all
  have a: "r \<noteq> Failure Unauthorized"
    unfolding r using own by (rule stake_not_Unauthorized)
  have b: "capsules s' k = capsules s k \<and> stakes s' k = stakes s k"
    unfolding s' using ne by (rule stake_elsewhere)
  have c: "r = Failure (if v < MIN_STAKE_AMOUNT then InsufficientPayment
                         else if MAX_STAKE_AMOUNT < v then StakeTooHigh else CapsuleNotFound) \<and>
            s' = s"
    if "\<not> capsule_exists (capsules s (H (msg_sender c) i))"
    using stake_no_capsule [where H = H and c = c and i = i and s = s and v = v] that assms(6)
    by simp
  have d: "r = Success"
    if "capsule_exists (capsules s (H (msg_sender c) i)) \<and>
          MIN_STAKE_AMOUNT \<le> v \<and> v \<le> MAX_STAKE_AMOUNT \<and>
          unat (totalStake (capsules s (H (msg_sender c) i))) + unat v < 2 ^ 256 \<and>
          unat (block_timestamp c) + 604800 < 2 ^ 256"
    unfolding r using that own by (simp add: stake_succeeds)
  have e: "MIN_STAKE_AMOUNT \<le> v \<and> v \<le> MAX_STAKE_AMOUNT \<and>
            capsule_exists (capsules s (H (msg_sender c) i)) \<and>
            creator (capsules s (H (msg_sender c) i)) = msg_sender c \<and>
            unat (totalStake (capsules s' (H (msg_sender c) i))) =
              unat (totalStake (capsules s (H (msg_sender c) i))) + unat v \<and>
            stake_exists (stakes s' (H (msg_sender c) i) (msg_sender c)) \<and>
            balance s' = balance s + unat v"
    if "r = Success"
  proof -
    have ok: "stake H c i v s = (Success, s')"
      using assms(6) that by simp
    note body = stake_Success_body [OF ok]
    show ?thesis
      using stake_body_effect [OF body] stake_body_lock [OF body] by simp
  qed
  show ?thesis
    using a b c d e ne by blast
qed

text \<open>
  Witness for C4 as amended: A and B have each created a capsule \<open>cap1\<close>. B's stake
  of 0.1 units on \<open>cap1\<close> succeeds and raises the \<open>totalStake\<close> of B's own capsule
  to 0.1 units; A's capsule is as it was, with no stake.
\<close>

theorem stake_only_own_capsule_witness:
  "collision_free_on packed
     (insert (msg_sender (caller 2 2000), ''cap1'') (created_pairs both_trace)) \<and>
   capsule_exists (capsules both_created (packed 1 ''cap1'')) \<and>
   creator (capsules both_created (packed 1 ''cap1'')) = 1 \<and>
   capsuleId (capsules both_created (packed 1 ''cap1'')) = ''cap1'' \<and>
   msg_sender (caller 2 2000) = 2 \<and>
   fst (stake packed (caller 2 2000) ''cap1'' 100000000000000000 both_created) = Success \<and>
   capsules (snd (stake packed (caller 2 2000) ''cap1'' 100000000000000000 both_created))
     (packed 1 ''cap1'') = capsules both_created (packed 1 ''cap1'') \<and>
   totalStake (capsules both_created (packed 1 ''cap1'')) = 0 \<and>
   packed 2 ''cap1'' \<noteq> packed 1 ''cap1'' \<and>
   creator (capsules both_created (packed 2 ''cap1'')) = 2 \<and>
   unat (totalStake (capsules
      (snd (stake packed (caller 2 2000) ''cap1'' 100000000000000000 both_created))
      (packed 2 ''cap1''))) = 100000000000000000"
proof -
  let ?r = "fst (stake packed (caller 2 2000) ''cap1'' 100000000000000000 both_created)"
  let ?s' = "snd (stake packed (caller 2 2000) ''cap1'' 100000000000000000 both_created)"
  have ex: "capsule_exists (capsules both_created (packed 1 ''cap1''))"
    and cr: "creator (capsules both_created (packed 1 ''cap1'')) \<noteq> msg_sender (caller 2 2000)"
    and cr1: "creator (capsules both_created (packed 1 ''cap1'')) = 1"
    and ts: "totalStake (capsules both_created (packed 1 ''cap1'')) = 0"
    and sender: "msg_sender (caller 2 2000) = 2"
    and id: "''cap1'' = capsuleId (capsules both_created (packed 1 ''cap1''))"
    by (simp_all add: both_created_def both_trace_def scenario_defs)
  have pre: "capsule_exists (capsules both_created (packed (msg_sender (caller 2 2000)) ''cap1'')) \<and>
          MIN_STAKE_AMOUNT \<le> 100000000000000000 \<and> 100000000000000000 \<le> MAX_STAKE_AMOUNT \<and>
          unat (totalStake (capsules both_created (packed (msg_sender (caller 2 2000)) ''cap1'')))
            + unat (100000000000000000 :: uint256) < 2 ^ 256 \<and>
          unat (block_timestamp (caller 2 2000)) + 604800 < 2 ^ 256"
    by (simp add: both_created_def both_trace_def scenario_defs)
  have ts2: "totalStake (capsules both_created (packed 2 ''cap1'')) = 0"
    by (simp add: both_created_def both_trace_def scenario_defs)
  have res: "stake packed (caller 2 2000) ''cap1'' 100000000000000000 both_created = (?r, ?s')"
    by simp
  note cf = packed_collision_free_on
    [of "insert (msg_sender (caller 2 2000), ''cap1'') (created_pairs both_trace)"]
  note w = stake_only_own_capsule [where H = packed and k = "packed 1 ''cap1''",
      OF cf both_created_def ex cr id res]
  note same = w [THEN conjunct2, THEN conjunct1]
  note ne = w [THEN conjunct2, THEN conjunct2, THEN conjunct2, THEN conjunct1]
  note ok = w [THEN conjunct2, THEN conjunct2, THEN conjunct2, THEN conjunct2, THEN conjunct2,
      THEN conjunct1, THEN mp, OF pre]
  note eff = w [THEN conjunct2, THEN conjunct2, THEN conjunct2, THEN conjunct2, THEN conjunct2,
      THEN conjunct2, THEN mp, OF ok]
  show ?thesis
    using ok same ne eff ex cr1 ts ts2 sender id cf by (simp add: caller_def)
qed

text \<open>
  Counterexample to C4 as stated: A's capsule \<open>cap1\<close> exists and B is not its creator;
  B's call of \<open>stake\<close> with the id \<open>cap1\<close> fails with \<open>CapsuleNotFound\<close>, not with
  \<open>Unauthorized\<close>.
\<close>

theorem stake_by_other_not_unauthorized:
  "capsule_exists (capsules created (packed 1 ''cap1'')) \<and>
   creator (capsules created (packed 1 ''cap1'')) = 1 \<and>
   capsuleId (capsules created (packed 1 ''cap1'')) = ''cap1'' \<and>
   msg_sender (caller 2 1000) = 2 \<and>
   fst (stake packed (caller 2 1000) ''cap1'' 100000000000000000 created) = Failure CapsuleNotFound"
  by (simp add: scenario_defs)

subsection \<open>C5: every deposit resets the lock\<close>

text \<open>
  Claim C5. After a successful \<open>stake\<close> at timestamp \<open>T\<close>, from any state (no
  stake record yet, or one already there), the caller's stake record exists and its
  \<open>lockUntil\<close> is \<open>T + 604800\<close>, without wrap-around. In particular a second
  successful deposit by the same caller at \<open>T'\<close> sets it to \<open>T' + 604800\<close>.
\<close>

theorem stake_resets_lock:
  assumes "k = H (msg_sender c) i" and "p = msg_sender c"
  shows "(stake H c i v s = (Success, s') \<longrightarrow>
            unat (lockUntil (stakes s' k p)) = unat (block_timestamp c) + 604800 \<and>
            stake_exists (stakes s' k p))
       \<and> (stake H c i v s = (Success, s') \<and> msg_sender c' = p \<and>
          stake H c' i v' s' = (Success, s'') \<longrightarrow>
            unat (lockUntil (stakes s'' k p)) = unat (block_timestamp c') + 604800)"
proof -
  have first: "unat (lockUntil (stakes s' k p)) = unat (block_timestamp c) + 604800 \<and>
            stake_exists (stakes s' k p)"
    if "stake H c i v s = (Success, s')"
    using stake_body_lock [OF stake_Success_body [OF that]] assms by simp
  have second: "unat (lockUntil (stakes s'' k p)) = unat (block_timestamp c') + 604800"
    if "msg_sender c' = p" and "stake H c' i v' s' = (Success, s'')"
    using stake_body_lock [OF stake_Success_body [OF that(2)]] that(1) assms by simp
  show ?thesis
    using first second by blast
qed

text \<open>
  Witness for C5: scenario 3 and a top-up. A stakes at 1000 and again at 2000; the lock
  ends at 605800 and then at 606800.
\<close>

theorem stake_resets_lock_witness:
  "stake packed (caller 1 1000) ''cap1'' 100000000000000000 created = (Success, staked) \<and>
   stake packed (caller 1 2000) ''cap1'' 100000000000000000 staked = (Success, topped) \<and>
   unat (lockUntil (stakes staked (packed 1 ''cap1'') 1)) = 1000 + 604800 \<and>
   stake_exists (stakes staked (packed 1 ''cap1'') 1) \<and>
   unat (lockUntil (stakes topped (packed 1 ''cap1'') 1)) = 2000 + 604800"
proof -
  have k: "packed 1 ''cap1'' = packed (msg_sender (caller 1 1000)) ''cap1''"
    and p: "1 = msg_sender (caller 1 1000)" and p': "msg_sender (caller 1 2000) = 1"
    by (simp_all add: caller_def)
  have "fst (stake packed (caller 1 1000) ''cap1'' 100000000000000000 created) = Success"
    by (simp add: scenario_defs)
  then have ok1: "stake packed (caller 1 1000) ''cap1'' 100000000000000000 created = (Success, staked)"
    by (simp add: staked_def prod_eq_iff)
  have "fst (stake packed (caller 1 2000) ''cap1'' 100000000000000000 staked) = Success"
    by (simp add: scenario_defs)
  then have ok2: "stake packed (caller 1 2000) ''cap1'' 100000000000000000 staked = (Success, topped)"
    by (simp add: topped_def prod_eq_iff)
  note w = stake_resets_lock [where H = packed and s = created and s' = staked and s'' = topped
      and c' = "caller 1 2000", OF k p]
  note a = w [THEN conjunct1, THEN mp, OF ok1]
  note b = w [THEN conjunct2, THEN mp, OF conjI [OF ok1 conjI [OF p' ok2]]]
  show ?thesis
    using ok1 ok2 a b by (simp add: caller_def)
qed

subsection \<open>C6: unstake and the lock\<close>

text \<open>
  Claim C6, as amended. For an existing capsule with an existing stake record of the
  caller and \<open>0 < amount \<le> totalStake\<close>: before \<open>lockUntil\<close>, \<open>unstake\<close> fails
  with \<open>StakeLocked\<close> and changes nothing. At or after \<open>lockUntil\<close>, the call
  succeeds if the contract holds the amount and the caller's account accepts the
  transfer, and otherwise fails with \<open>TransferFailed\<close> and changes nothing. When
  the contract holds the amount and the caller's account accepts it and makes no call
  back into the contract while it receives it, the successful call lowers
  \<open>totalStake\<close> by exactly the amount, sets \<open>updatedAt\<close> to the timestamp of
  the call, pays the caller the amount, and leaves every stake record, with
  \<open>lockUntil\<close> and \<open>stakedAt\<close>, as before.
\<close>

theorem unstake_gating:
  assumes "k = H (msg_sender c) i" and "p = msg_sender c"
    and "capsule_exists (capsules s k)" and "stake_exists (stakes s k p)"
    and "0 < amount" and "amount \<le> totalStake (capsules s k)"
  shows "(block_timestamp c < lockUntil (stakes s k p) \<longrightarrow>
            unstake H c i amount s = (Failure StakeLocked, s))
       \<and> (lockUntil (stakes s k p) \<le> block_timestamp c \<and>
          unat amount \<le> balance s \<and> reaction c = Reaction [] True \<longrightarrow>
            (\<exists>s'. unstake H c i amount s = (Success, s') \<and>
               unat (totalStake (capsules s' k)) + unat amount = unat (totalStake (capsules s k)) \<and>
               updatedAt (capsules s' k) = block_timestamp c \<and>
               lockUntil (stakes s' k p) = lockUntil (stakes s k p) \<and>
               stakedAt (stakes s' k p) = stakedAt (stakes s k p) \<and>
               stakes s' = stakes s \<and>
               payouts s' = payouts s @ [(p, amount)]))
       \<and> (lockUntil (stakes s k p) \<le> block_timestamp c \<and>
          unat amount \<le> balance s \<and> recipient_accepts c \<longrightarrow>
            fst (unstake H c i amount s) = Success)
       \<and> (lockUntil (stakes s k p) \<le> block_timestamp c \<and>
          \<not> (unat amount \<le> balance s \<and> recipient_accepts c) \<longrightarrow>
            unstake H c i amount s = (Failure TransferFailed, s))"
proof -
  have nz: "amount \<noteq> 0" using assms(5) by (simp add: word_gt_0)
  have le: "unat amount \<le> unat (totalStake (capsules s k))"
    using assms(6) by (simp add: word_le_nat_alt)
  have sub: "unat (totalStake (capsules s k) - amount) + unat amount = unat (totalStake (capsules s k))"
    using assms(6) le by (simp add: unat_sub)
  have locked: "unstake H c i amount s = (Failure StakeLocked, s)"
    if "block_timestamp c < lockUntil (stakes s k p)"
    using unstake_locked [of s H c i amount] that assms nz by (simp add: unstake_def transact0)
  have paid: "\<exists>s'. unstake H c i amount s = (Success, s') \<and>
               unat (totalStake (capsules s' k)) + unat amount = unat (totalStake (capsules s k)) \<and>
               updatedAt (capsules s' k) = block_timestamp c \<and>
               lockUntil (stakes s' k p) = lockUntil (stakes s k p) \<and>
               stakedAt (stakes s' k p) = stakedAt (stakes s k p) \<and>
               stakes s' = stakes s \<and>
               payouts s' = payouts s @ [(p, amount)]"
    if "lockUntil (stakes s k p) \<le> block_timestamp c \<and>
          unat amount \<le> balance s \<and> reaction c = Reaction [] True"
    using unstake_succeeds [of s H c i amount] that assms nz sub
    by (simp add: unstake_def transact0)
  have accepted: "fst (unstake H c i amount s) = Success"
    if "lockUntil (stakes s k p) \<le> block_timestamp c \<and>
          unat amount \<le> balance s \<and> recipient_accepts c"
  proof -
    have "\<exists>s'. unstake_body H c i amount s = Done s'"
      using unstake_accepted [of s H c i amount] that assms nz by simp
    then show ?thesis
      by (auto simp: unstake_def transact0)
  qed
  have refused: "unstake H c i amount s = (Failure TransferFailed, s)"
    if "lockUntil (stakes s k p) \<le> block_timestamp c \<and>
          \<not> (unat amount \<le> balance s \<and> recipient_accepts c)"
    using unstake_transfer_fails [of s H c i amount] that assms nz
    by (simp add: unstake_def transact0)
  show ?thesis
    using locked paid accepted refused by blast
qed

text \<open>
  Witness for C6: scenarios 3 and 4. A's unstake of 0.01 units at T + 1000 fails with
  \<open>StakeLocked\<close>; at T + 604800 it succeeds, leaving 0.09 units staked and the stake
  record as it was.
\<close>

theorem unstake_gating_witness:
  "capsule_exists (capsules staked (packed 1 ''cap1'')) \<and>
   stake_exists (stakes staked (packed 1 ''cap1'') 1) \<and>
   unstake packed (caller 1 2000) ''cap1'' 10000000000000000 staked = (Failure StakeLocked, staked) \<and>
   unstake packed (caller 1 605800) ''cap1'' 10000000000000000 staked = (Success, unstaked) \<and>
   totalStake (capsules unstaked (packed 1 ''cap1'')) = 90000000000000000 \<and>
   updatedAt (capsules unstaked (packed 1 ''cap1'')) = 605800 \<and>
   lockUntil (stakes unstaked (packed 1 ''cap1'') 1) = 605800 \<and>
   stakedAt (stakes unstaked (packed 1 ''cap1'') 1) = 1000"
proof -
  have k: "packed 1 ''cap1'' = packed (msg_sender (caller 1 t)) ''cap1''"
    and p: "1 = msg_sender (caller 1 t)" for t
    by (simp_all add: caller_def)
  have ex: "capsule_exists (capsules staked (packed 1 ''cap1''))"
    and st: "stake_exists (stakes staked (packed 1 ''cap1'') 1)"
    and pos: "0 < (10000000000000000 :: uint256)"
    and le: "10000000000000000 \<le> totalStake (capsules staked (packed 1 ''cap1''))"
    by (simp_all add: staked_capsule staked_stake)
  note early = unstake_gating [where H = packed and s = staked, OF k [of 2000] p ex st pos le]
  note late = unstake_gating [where H = packed and s = staked, OF k [of 605800] p ex st pos le]
  have "block_timestamp (caller 1 2000) < lockUntil (stakes staked (packed 1 ''cap1'') 1)"
    by (simp add: staked_stake caller_def)
  note locked = early [THEN conjunct1, THEN mp, OF this]
  have "lockUntil (stakes staked (packed 1 ''cap1'') 1) \<le> block_timestamp (caller 1 605800) \<and>
     unat (10000000000000000 :: uint256) \<le> balance staked \<and>
     reaction (caller 1 605800) = Reaction [] True"
    by (simp add: staked_stake staked_rest caller_def)
  note paid = late [THEN conjunct2, THEN conjunct1, THEN mp, OF this]
  then obtain s' where s': "unstake packed (caller 1 605800) ''cap1'' 10000000000000000 staked = (Success, s')"
    and eff: "updatedAt (capsules s' (packed 1 ''cap1'')) = block_timestamp (caller 1 605800)"
      "lockUntil (stakes s' (packed 1 ''cap1'') 1) = lockUntil (stakes staked (packed 1 ''cap1'') 1)"
      "stakedAt (stakes s' (packed 1 ''cap1'') 1) = stakedAt (stakes staked (packed 1 ''cap1'') 1)"
    by blast
  have eq: "s' = unstaked" using s' by (simp add: unstaked_def)
  have tot: "totalStake (capsules unstaked (packed 1 ''cap1'')) = 90000000000000000"
    by (simp add: unstaked_def scenario_defs)
  show ?thesis
    using ex st locked s' eff tot by (simp add: eq staked_stake caller_def)
qed

text \<open>
  Counterexamples to C6 as stated: the stake exists, the amount of 0.01 units is within
  the \<open>totalStake\<close> of 0.1 units and the lock has expired. A caller whose account
  does not accept the transfer makes \<open>unstake\<close> fail with \<open>TransferFailed\<close>. A
  caller whose account, while it receives the transfer, calls \<open>unstake\<close> for the
  same amount again sees the call succeed with \<open>totalStake\<close> at 0.08 units when it
  returns: lower by twice the amount.
\<close>

theorem unstake_refused_or_reentered:
  "capsule_exists (capsules staked (packed 1 ''cap1'')) \<and>
   stake_exists (stakes staked (packed 1 ''cap1'') 1) \<and>
   (0 :: uint256) < 10000000000000000 \<and>
   10000000000000000 \<le> totalStake (capsules staked (packed 1 ''cap1'')) \<and>
   totalStake (capsules staked (packed 1 ''cap1'')) = 100000000000000000 \<and>
   lockUntil (stakes staked (packed 1 ''cap1'') 1) \<le> 605800 \<and>
   fst (unstake packed (refusing 1 605800) ''cap1'' 10000000000000000 staked)
     = Failure TransferFailed \<and>
   fst (unstake packed (reentering 1 605800 (Unstake ''cap1'' 10000000000000000)) ''cap1''
          10000000000000000 staked) = Success \<and>
   totalStake (capsules
      (snd (unstake packed (reentering 1 605800 (Unstake ''cap1'' 10000000000000000)) ''cap1''
              10000000000000000 staked)) (packed 1 ''cap1'')) = 80000000000000000"
  by (simp add: scenario_defs)

subsection \<open>C7: one registration per owner and id\<close>

text \<open>
  Claim C7. Once \<open>registerAgent\<close> has succeeded for a principal and an id, then after
  any further sequence of calls the agent record is what that call wrote, and every
  \<open>registerAgent\<close> by the same principal with the same id (whatever its other
  arguments, timestamp) fails and leaves the state as it is. Likewise for
  \<open>createCapsule\<close>: the capsule still exists, and a second creation fails and leaves
  the state as it is.
\<close>

theorem registration_unique:
  assumes "p = msg_sender c" and "msg_sender c' = p" and "t = run H s' tr"
  shows "(registerAgent H c a n d pf s = (Success, s') \<longrightarrow>
            agents t (H p a) = agents s' (H p a) \<and>
            (\<exists>e. registerAgent H c' a n' d' pf' t = (Failure e, t)))
       \<and> (createCapsule H c a n d g pr s = (Success, s') \<longrightarrow>
            capsule_exists (capsules t (H p a)) \<and>
            (\<exists>e. createCapsule H c' a n' d' g' pr' t = (Failure e, t)))"
proof -
  have agent: "agents t (H p a) = agents s' (H p a) \<and>
            (\<exists>e. registerAgent H c' a n' d' pf' t = (Failure e, t))"
    if ok: "registerAgent H c a n d pf s = (Success, s')"
  proof -
    have ex: "agent_exists (agents s' (H p a))"
      using registerAgent_Success [OF ok] assms(1) by simp
    have same: "agents t (H p a) = agents s' (H p a)"
      unfolding assms(3)
      using agents_kept(2) [where v = "agents s' (H p a)" and s = s' and k = "H p a"
          and H = H and tr = tr, OF ex]
      by simp
    then have "agent_exists (agents t (H (msg_sender c') a))"
      using ex assms(2) by simp
    then show ?thesis
      using same registerAgent_duplicate by blast
  qed
  have capsule: "capsule_exists (capsules t (H p a)) \<and>
            (\<exists>e. createCapsule H c' a n' d' g' pr' t = (Failure e, t))"
    if ok: "createCapsule H c a n d g pr s = (Success, s')"
  proof -
    have ex: "capsule_exists (capsules s' (H p a))"
      using createCapsule_Success [OF ok] assms(1) by simp
    have still: "capsule_exists (capsules t (H p a))"
      unfolding assms(3)
      using capsule_kept(2) [where s = s' and k = "H p a" and H = H and tr = tr] ex
      by simp
    then have "capsule_exists (capsules t (H (msg_sender c') a))"
      using assms(2) by simp
    then show ?thesis
      using still createCapsule_duplicate by blast
  qed
  show ?thesis
    using agent capsule by blast
qed

text \<open>
  Witness for C7: scenarios 1 and 2, then the stake of scenario 3. A second registration of
  \<open>agent1\<close> and a second creation of \<open>cap1\<close> by A both fail.
\<close>

theorem registration_unique_witness:
  "registerAgent packed (caller 1 1000) ''agent1'' ''Agent One'' ''A1'' ''openai'' init
     = (Success, registered) \<and>
   agents staked (packed 1 ''agent1'') = agents registered (packed 1 ''agent1'') \<and>
   (\<exists>e. registerAgent packed (caller 1 5000) ''agent1'' ''Again'' ''A2'' ''other'' staked
     = (Failure e, staked)) \<and>
   createCapsule packed (caller 1 1000) ''cap1'' ''Capsule One'' ''notes'' ''coding''
     50000000000000000 registered = (Success, created) \<and>
   (\<exists>e. createCapsule packed (caller 1 5000) ''cap1'' ''Again'' ''n'' ''c'' 60000000000000000 staked
     = (Failure e, staked))"
proof -
  have p: "1 = msg_sender (caller 1 1000)" and p': "msg_sender (caller 1 5000) = 1"
    by (simp_all add: caller_def)
  have "fst (registerAgent packed (caller 1 1000) ''agent1'' ''Agent One'' ''A1'' ''openai'' init)
      = Success"
    by (simp add: scenario_defs)
  then have ok1: "registerAgent packed (caller 1 1000) ''agent1'' ''Agent One'' ''A1'' ''openai'' init
     = (Success, registered)"
    by (simp add: registered_def prod_eq_iff)
  have cre: "created = snd (createCapsule packed (caller 1 1000) ''cap1'' ''Capsule One'' ''notes''
      ''coding'' 50000000000000000 registered)"
    by (simp add: created_def created_trace_def registered_def)
  have "fst (createCapsule packed (caller 1 1000) ''cap1'' ''Capsule One'' ''notes'' ''coding''
     50000000000000000 registered) = Success"
    by (simp add: registered_def scenario_defs)
  then have ok2: "createCapsule packed (caller 1 1000) ''cap1'' ''Capsule One'' ''notes'' ''coding''
     50000000000000000 registered = (Success, created)"
    by (simp add: cre prod_eq_iff)
  have t1: "staked = run packed registered
      [(caller 1 1000, CreateCapsule ''cap1'' ''Capsule One'' ''notes'' ''coding'' 50000000000000000),
       (caller 1 1000, Stake ''cap1'' 100000000000000000)]"
    by (simp add: staked_def cre)
  have t2: "staked = run packed created [(caller 1 1000, Stake ''cap1'' 100000000000000000)]"
    by (simp add: staked_def)
  note a = registration_unique [where H = packed and c' = "caller 1 5000", OF p p' t1,
      THEN conjunct1, THEN mp, OF ok1]
  note b = registration_unique [where H = packed and c' = "caller 1 5000", OF p p' t2,
      THEN conjunct2, THEN mp, OF ok2]
  show ?thesis
    using ok1 ok2 a b by blast
qed

subsection \<open>C8: the two earnings fields move together\<close>



subsection \<open>C9: stakedAt on a top-up\<close>

text \<open>
  Claim C9 does not hold for the code. What the code does: a successful \<open>stake\<close> on an
  existing stake record (a top-up) leaves \<open>stakedAt\<close> as it was; only the first
  deposit writes it.
\<close>

theorem topup_keeps_stakedAt:
  assumes "k = H (msg_sender c) i" and "p = msg_sender c"
    and "stake_exists (stakes s k p)"
    and "stake H c i v s = (Success, s')"
  shows "stakedAt (stakes s' k p) = stakedAt (stakes s k p)"
  using stake_body_stakedAt [OF stake_Success_body [OF assms(4)]] assms(1-3) by simp

text \<open>
  The failing input for C9: A stakes at 1000 and tops up at 2000; \<open>stakedAt\<close> is still
  1000, not the timestamp of the most recent deposit.
\<close>

theorem topup_keeps_stakedAt_witness:
  "stake_exists (stakes staked (packed 1 ''cap1'') 1) \<and>
   stake packed (caller 1 2000) ''cap1'' 100000000000000000 staked = (Success, topped) \<and>
   stakedAt (stakes topped (packed 1 ''cap1'') 1) = 1000 \<and>
   stakedAt (stakes topped (packed 1 ''cap1'') 1) \<noteq> block_timestamp (caller 1 2000)"
proof -
  have k: "packed 1 ''cap1'' = packed (msg_sender (caller 1 2000)) ''cap1''"
    and p: "1 = msg_sender (caller 1 2000)"
    by (simp_all add: caller_def)
  have ex: "stake_exists (stakes staked (packed 1 ''cap1'') 1)"
    by (simp add: staked_stake)
  have "fst (stake packed (caller 1 2000) ''cap1'' 100000000000000000 staked) = Success"
    by (simp add: scenario_defs)
  then have ok: "stake packed (caller 1 2000) ''cap1'' 100000000000000000 staked = (Success, topped)"
    by (simp add: topped_def prod_eq_iff)
  have "stakedAt (stakes topped (packed 1 ''cap1'') 1) = stakedAt (stakes staked (packed 1 ''cap1'') 1)"
    using topup_keeps_stakedAt [OF k p ex ok] .
  then show ?thesis
    using ex ok by (simp add: staked_stake caller_def)
qed

subsection \<open>C10: a capsule at the caller's key belongs to the caller\<close>

text \<open>
  Claim C10, as amended. In every state reached from the initial one by a sequence of
  calls, with a key function that is collision-free on the pairs created in that
  sequence, the pair \<open>(p, i)\<close> and the caller's pair: a capsule existing at the key
  of \<open>(p, i)\<close> has creator \<open>p\<close>, and an agent existing there has owner \<open>p\<close>.
  Hence \<open>stake\<close> and \<open>updateCapsulePrice\<close> never fail with \<open>Unauthorized\<close>.
  A call of either by a principal other than \<open>p\<close> with the id \<open>i\<close> looks up
  another key and leaves the capsule of \<open>(p, i)\<close> unchanged. When the caller has
  no capsule of that id, the call fails and changes nothing, and the error is that of
  the bounds check, which comes before the lookup, when the amount or the price is out
  of bounds: \<open>InsufficientPayment\<close> or \<open>StakeTooHigh\<close> for \<open>stake\<close>,
  \<open>InvalidPrice\<close> or \<open>PriceTooHigh\<close> for \<open>updateCapsulePrice\<close>. It is
  \<open>CapsuleNotFound\<close> only otherwise. A call of either that succeeds has found a
  capsule of the caller's own at the caller's key.
\<close>

theorem caller_key_owner:
  assumes "collision_free_on H (insert (p, i) (insert (msg_sender c, i) (created_pairs tr)))"
    and "s = run H init tr"
  shows "(capsule_exists (capsules s (H p i)) \<longrightarrow> creator (capsules s (H p i)) = p)
       \<and> (agent_exists (agents s (H p i)) \<longrightarrow> owner (agents s (H p i)) = p)
       \<and> fst (stake H c i v s) \<noteq> Failure Unauthorized
       \<and> fst (updateCapsulePrice H c i np s) \<noteq> Failure Unauthorized
       \<and> (msg_sender c \<noteq> p \<longrightarrow>
            H (msg_sender c) i \<noteq> H p i \<and>
            capsules (snd (stake H c i v s)) (H p i) = capsules s (H p i) \<and>
            capsules (snd (updateCapsulePrice H c i np s)) (H p i) = capsules s (H p i))
       \<and> (\<not> capsule_exists (capsules s (H (msg_sender c) i)) \<longrightarrow>
            stake H c i v s =
              (Failure (if v < MIN_STAKE_AMOUNT then InsufficientPayment
                        else if MAX_STAKE_AMOUNT < v then StakeTooHigh else CapsuleNotFound), s) \<and>
            updateCapsulePrice H c i np s =
              (Failure (if np < MIN_PRICE_PER_QUERY then InvalidPrice
                        else if MAX_PRICE_PER_QUERY < np then PriceTooHigh else CapsuleNotFound), s))
       \<and> (fst (stake H c i v s) = Success \<or> fst (updateCapsulePrice H c i np s) = Success \<longrightarrow>
            capsule_exists (capsules s (H (msg_sender c) i)) \<and>
            creator (capsules s (H (msg_sender c) i)) = msg_sender c)"
proof -
  let ?S = "insert (p, i) (insert (msg_sender c, i) (created_pairs tr))"
  have inv: "keyed_in H (created_pairs tr) s"
    unfolding assms(2) by (rule run_keyed_in)
  have sub: "created_pairs tr \<subseteq> ?S" by auto
  have cr: "creator (capsules s (H p i)) = p" if "capsule_exists (capsules s (H p i))"
    using assms(1) inv sub _ that by (rule keyed_in_creator) simp
  have ow: "owner (agents s (H p i)) = p" if "agent_exists (agents s (H p i))"
    using assms(1) inv sub _ that by (rule keyed_in_owner) simp
  have own: "capsule_exists (capsules s (H (msg_sender c) i)) \<longrightarrow>
      creator (capsules s (H (msg_sender c) i)) = msg_sender c"
    using keyed_in_creator [OF assms(1) inv sub, of "msg_sender c" i] by simp
  have st: "fst (stake H c i v s) \<noteq> Failure Unauthorized"
    using own by (rule stake_not_Unauthorized)
  have up: "fst (updateCapsulePrice H c i np s) \<noteq> Failure Unauthorized"
    using own by (rule updateCapsulePrice_not_Unauthorized)
  have other: "H (msg_sender c) i \<noteq> H p i \<and>
            capsules (snd (stake H c i v s)) (H p i) = capsules s (H p i) \<and>
            capsules (snd (updateCapsulePrice H c i np s)) (H p i) = capsules s (H p i)"
    if "msg_sender c \<noteq> p"
  proof -
    have ne: "H p i \<noteq> H (msg_sender c) i"
      using collision_free_onD [OF assms(1), of p i "msg_sender c" i] that by auto
    show ?thesis
      using stake_elsewhere [where H = H and k = "H p i", OF ne]
        updateCapsulePrice_elsewhere [where H = H and k = "H p i", OF ne] ne by simp
  qed
  have nf: "stake H c i v s =
              (Failure (if v < MIN_STAKE_AMOUNT then InsufficientPayment
                        else if MAX_STAKE_AMOUNT < v then StakeTooHigh else CapsuleNotFound), s) \<and>
            updateCapsulePrice H c i np s =
              (Failure (if np < MIN_PRICE_PER_QUERY then InvalidPrice
                        else if MAX_PRICE_PER_QUERY < np then PriceTooHigh else CapsuleNotFound), s)"
    if "\<not> capsule_exists (capsules s (H (msg_sender c) i))"
    using stake_no_capsule [where H = H and c = c and i = i and s = s and v = v]
      updateCapsulePrice_no_capsule [where H = H and c = c and i = i and s = s and np = np] that
    by simp
  have succ: "capsule_exists (capsules s (H (msg_sender c) i)) \<and>
            creator (capsules s (H (msg_sender c) i)) = msg_sender c"
    if "fst (stake H c i v s) = Success \<or> fst (updateCapsulePrice H c i np s) = Success"
  proof -
    have "capsule_exists (capsules s (H (msg_sender c) i))"
    proof (rule ccontr)
      assume "\<not> capsule_exists (capsules s (H (msg_sender c) i))"
      from nf [OF this] that show False by auto
    qed
    then show ?thesis using own by simp
  qed
  show ?thesis
    using cr ow st up other nf succ by blast
qed

text \<open>
  Witness for C10 as amended: A's capsule and agent sit at A's keys; B's stake of 0.1
  units and B's price update to 0.06 units under the id \<open>cap1\<close>, both within the
  bounds, fail with \<open>CapsuleNotFound\<close>; A's own stake does not fail with
  \<open>Unauthorized\<close>.
\<close>

theorem caller_key_owner_witness:
  "collision_free_on packed (insert (1, ''cap1'')
     (insert (msg_sender (caller 2 1000), ''cap1'') (created_pairs created_trace))) \<and>
   capsule_exists (capsules created (packed 1 ''cap1'')) \<and>
   creator (capsules created (packed 1 ''cap1'')) = 1 \<and>
   agent_exists (agents created (packed 1 ''agent1'')) \<and>
   owner (agents created (packed 1 ''agent1'')) = 1 \<and>
   msg_sender (caller 2 1000) \<noteq> 1 \<and>
   stake packed (caller 2 1000) ''cap1'' 100000000000000000 created
     = (Failure CapsuleNotFound, created) \<and>
   updateCapsulePrice packed (caller 2 1000) ''cap1'' 60000000000000000 created
     = (Failure CapsuleNotFound, created) \<and>
   fst (stake packed (caller 1 1000) ''cap1'' 100000000000000000 created) \<noteq> Failure Unauthorized"
proof -
  note w = caller_key_owner [where H = packed and c = "caller 2 1000" and p = 1
      and v = 100000000000000000 and np = 60000000000000000,
      OF packed_collision_free_on created_def]
  note a = caller_key_owner [where H = packed and c = "caller 1 1000" and p = 1
      and i = "''cap1''" and v = 100000000000000000,
      OF packed_collision_free_on created_def]
  have ex: "capsule_exists (capsules created (packed 1 ''cap1''))"
    and ag: "agent_exists (agents created (packed 1 ''agent1''))"
    and other: "msg_sender (caller 2 1000) \<noteq> 1"
    and none: "\<not> capsule_exists (capsules created (packed (msg_sender (caller 2 1000)) ''cap1''))"
    by (simp_all add: scenario_defs)
  have cr: "creator (capsules created (packed 1 ''cap1'')) = 1"
    using w [where i = "''cap1''", THEN conjunct1] ex by blast
  have ow: "owner (agents created (packed 1 ''agent1'')) = 1"
    using w [where i = "''agent1''", THEN conjunct2, THEN conjunct1] ag by blast
  note nf = w [where i = "''cap1''", THEN conjunct2, THEN conjunct2, THEN conjunct2,
      THEN conjunct2, THEN conjunct2, THEN conjunct1, THEN mp, OF none]
  have st: "stake packed (caller 2 1000) ''cap1'' 100000000000000000 created
     = (Failure CapsuleNotFound, created)"
    using nf [THEN conjunct1] by (simp add: const_defs)
  have up: "updateCapsulePrice packed (caller 2 1000) ''cap1'' 60000000000000000 created
     = (Failure CapsuleNotFound, created)"
    using nf [THEN conjunct2] by (simp add: const_defs)
  note un = a [THEN conjunct2, THEN conjunct2, THEN conjunct1]
  show ?thesis
    using packed_collision_free_on ex cr ag ow other st up un by simp
qed

text \<open>
  Counterexample to C10 as stated: A's capsule \<open>cap1\<close> exists in a reachable state, and
  B, who is not its creator and has no capsule of that id, calls \<open>stake\<close> with no
  value attached and \<open>updateCapsulePrice\<close> with the price 0. Neither call fails
  with \<open>CapsuleNotFound\<close>, and neither works on a capsule of B's: they fail with
  \<open>InsufficientPayment\<close> and \<open>InvalidPrice\<close>.
\<close>

theorem other_caller_not_CapsuleNotFound:
  "created = run packed init created_trace \<and>
   capsule_exists (capsules created (packed 1 ''cap1'')) \<and>
   creator (capsules created (packed 1 ''cap1'')) = 1 \<and>
   msg_sender (caller 2 1000) = 2 \<and>
   \<not> capsule_exists (capsules created (packed 2 ''cap1'')) \<and>
   stake packed (caller 2 1000) ''cap1'' 0 created = (Failure InsufficientPayment, created) \<and>
   updateCapsulePrice packed (caller 2 1000) ''cap1'' 0 created = (Failure InvalidPrice, created)"
  by (simp add: scenario_defs)

end
